theory Spec2Isabelle
  imports Main "HOL-Library.Word"
begin

unbundle bit_operations_syntax

section \<open>Values of the host language\<close>

text \<open>
  A \<open>Buffer\<close> is a sequence of octets. A JavaScript string is a sequence of UTF-16
  code units; string equality (\<open>===\<close>) is equality of these sequences. Numbers that the
  codec handles are non-negative integers (lengths, counts, epochs, property ids);
  timestamps are integers of milliseconds.
\<close>

type_synonym byte = "8 word"
type_synonym buffer = "byte list"
type_synonym jsstring = "16 word list"

text \<open>String literals of the source, as code-unit sequences.\<close>

definition js :: "string \<Rightarrow> jsstring" where
  "js s = map (\<lambda>c. of_nat (of_char c)) s"

text \<open>
  Exceptions as values. \<open>Error\<close> and \<open>TypeError\<close> are the two classes index.ts throws
  itself, each with its message. \<open>FormatError\<close> is what the primitive reader and the
  identifier codec raise on truncated or malformed input; \<open>RangeError\<close> is what the
  primitive writer raises for an integer that does not fit its width.
\<close>

datatype error = Error jsstring | TypeError jsstring | FormatError | RangeError

definition andThen :: "error + 'a \<Rightarrow> ('a \<Rightarrow> error + 'b) \<Rightarrow> error + 'b" where
  "andThen m f = (case m of Inl e \<Rightarrow> Inl e | Inr x \<Rightarrow> f x)"

subsection \<open>Text encodings of Buffer\<close>

text \<open>
  \<open>Buffer.from(s, 'ascii')\<close> keeps the low octet of every code unit;
  \<open>buf.toString('ascii')\<close> clears the top bit of every octet.
\<close>

definition Buffer_from_ascii :: "jsstring \<Rightarrow> buffer" where
  "Buffer_from_ascii s = map (\<lambda>c. of_nat (unat c mod 256)) s"

definition toString_ascii :: "buffer \<Rightarrow> jsstring" where
  "toString_ascii b = map (\<lambda>x. of_nat (unat (x AND 0x7F))) b"

definition is_ascii :: "jsstring \<Rightarrow> bool" where
  "is_ascii s = list_all (\<lambda>c. unat c < 128) s"

text \<open>
  \<open>Buffer.from(s, 'utf8')\<close>: surrogate pairs are combined into one code point of four
  octets, a surrogate without its partner becomes U+FFFD (EF BF BD).
\<close>

definition is_high_surrogate :: "nat \<Rightarrow> bool" where
  "is_high_surrogate x = (0xD800 \<le> x \<and> x < 0xDC00)"

definition is_low_surrogate :: "nat \<Rightarrow> bool" where
  "is_low_surrogate x = (0xDC00 \<le> x \<and> x < 0xE000)"

definition utf8_replacement :: buffer where
  "utf8_replacement = [0xEF, 0xBF, 0xBD]"

definition utf8_four :: "nat \<Rightarrow> buffer" where
  "utf8_four cp = [of_nat (0xF0 + cp div 262144), of_nat (0x80 + cp div 4096 mod 64),
                   of_nat (0x80 + cp div 64 mod 64), of_nat (0x80 + cp mod 64)]"

fun Buffer_from_utf8 :: "jsstring \<Rightarrow> buffer" where
  "Buffer_from_utf8 [] = []"
| "Buffer_from_utf8 (c # cs) =
     (let x = unat c in
      if x < 0x80 then of_nat x # Buffer_from_utf8 cs
      else if x < 0x800 then
        of_nat (0xC0 + x div 64) # of_nat (0x80 + x mod 64) # Buffer_from_utf8 cs
      else if is_high_surrogate x then
        (case cs of
           [] \<Rightarrow> utf8_replacement
         | d # ds \<Rightarrow>
             if is_low_surrogate (unat d)
             then utf8_four (0x10000 + (x - 0xD800) * 1024 + (unat d - 0xDC00))
                  @ Buffer_from_utf8 ds
             else utf8_replacement @ Buffer_from_utf8 cs)
      else if is_low_surrogate x then utf8_replacement @ Buffer_from_utf8 cs
      else of_nat (0xE0 + x div 4096) # of_nat (0x80 + x div 64 mod 64)
           # of_nat (0x80 + x mod 64) # Buffer_from_utf8 cs)"

text \<open>
  \<open>buf.toString('utf8')\<close>: never fails; an octet that cannot continue a well-formed
  sequence ends it with one U+FFFD and is decoded again as the start of the next.
\<close>

definition in_range :: "nat \<Rightarrow> nat \<Rightarrow> byte \<Rightarrow> bool" where
  "in_range lo hi b = (lo \<le> unat b \<and> unat b \<le> hi)"

definition second_lo :: "nat \<Rightarrow> nat" where
  "second_lo x = (if x = 0xE0 then 0xA0 else if x = 0xF0 then 0x90 else 0x80)"

definition second_hi :: "nat \<Rightarrow> nat" where
  "second_hi x = (if x = 0xED then 0x9F else if x = 0xF4 then 0x8F else 0xBF)"

definition utf16_units :: "nat \<Rightarrow> jsstring" where
  "utf16_units cp =
     (if cp < 0x10000 then [of_nat cp]
      else [of_nat (0xD800 + (cp - 0x10000) div 1024), of_nat (0xDC00 + (cp - 0x10000) mod 1024)])"

fun toString_utf8 :: "buffer \<Rightarrow> jsstring" where
  "toString_utf8 [] = []"
| "toString_utf8 (b # bs) =
     (let x = unat b in
      if x < 0x80 then of_nat x # toString_utf8 bs
      else if 0xC2 \<le> x \<and> x \<le> 0xDF then
        (case bs of
           [] \<Rightarrow> [0xFFFD]
         | b1 # r1 \<Rightarrow>
             if in_range 0x80 0xBF b1
             then of_nat ((x - 0xC0) * 64 + (unat b1 - 0x80)) # toString_utf8 r1
             else 0xFFFD # toString_utf8 bs)
      else if 0xE0 \<le> x \<and> x \<le> 0xEF then
        (case bs of
           [] \<Rightarrow> [0xFFFD]
         | b1 # r1 \<Rightarrow>
             if in_range (second_lo x) (second_hi x) b1 then
               (case r1 of
                  [] \<Rightarrow> [0xFFFD]
                | b2 # r2 \<Rightarrow>
                    if in_range 0x80 0xBF b2
                    then of_nat ((x - 0xE0) * 4096 + (unat b1 - 0x80) * 64 + (unat b2 - 0x80))
                         # toString_utf8 r2
                    else 0xFFFD # toString_utf8 r1)
             else 0xFFFD # toString_utf8 bs)
      else if 0xF0 \<le> x \<and> x \<le> 0xF4 then
        (case bs of
           [] \<Rightarrow> [0xFFFD]
         | b1 # r1 \<Rightarrow>
             if in_range (second_lo x) (second_hi x) b1 then
               (case r1 of
                  [] \<Rightarrow> [0xFFFD]
                | b2 # r2 \<Rightarrow>
                    if in_range 0x80 0xBF b2 then
                      (case r2 of
                         [] \<Rightarrow> [0xFFFD]
                       | b3 # r3 \<Rightarrow>
                           if in_range 0x80 0xBF b3
                           then utf16_units ((x - 0xF0) * 262144 + (unat b1 - 0x80) * 4096
                                             + (unat b2 - 0x80) * 64 + (unat b3 - 0x80))
                                @ toString_utf8 r3
                           else 0xFFFD # toString_utf8 r2)
                    else 0xFFFD # toString_utf8 r1)
             else 0xFFFD # toString_utf8 bs)
      else 0xFFFD # toString_utf8 bs)"

text \<open>A string is well formed when every surrogate is half of a pair.\<close>

fun well_formed_utf16 :: "jsstring \<Rightarrow> bool" where
  "well_formed_utf16 [] = True"
| "well_formed_utf16 (c # cs) =
     (if is_high_surrogate (unat c) then
        (case cs of [] \<Rightarrow> False | d # ds \<Rightarrow> is_low_surrogate (unat d) \<and> well_formed_utf16 ds)
      else \<not> is_low_surrogate (unat c) \<and> well_formed_utf16 cs)"

section \<open>The primitive reader and writer\<close>

text \<open>
  Modelled from the spec: the \<open>Reader\<close> and \<open>Writer\<close> of the primitive codec
  (package oer-utils), which read and write unsigned 8/16/32-bit big-endian integers, a
  variable-length unsigned integer, a length-prefixed byte string and a fixed-length
  raw byte span. A reader is the unread rest of its buffer, a writer the octets written
  so far. Reading past the end or a malformed length prefix raises \<open>FormatError\<close>;
  writing an integer that does not fit its width raises \<open>RangeError\<close>.
\<close>

fun forEach :: "('a \<Rightarrow> buffer \<Rightarrow> error + buffer) \<Rightarrow> 'a list \<Rightarrow> buffer \<Rightarrow> error + buffer" where
  "forEach f [] w = Inr w"
| "forEach f (x # xs) w = andThen (f x w) (forEach f xs)"

fun readN :: "(buffer \<Rightarrow> error + ('a \<times> buffer)) \<Rightarrow> nat \<Rightarrow> buffer \<Rightarrow> error + ('a list \<times> buffer)" where
  "readN f 0 r = Inr ([], r)"
| "readN f (Suc n) r =
     andThen (f r) (\<lambda>(x, r).
     andThen (readN f n r) (\<lambda>(xs, r). Inr (x # xs, r)))"

fun octets_of_uint :: "nat \<Rightarrow> nat \<Rightarrow> buffer" where
  "octets_of_uint 0 v = []"
| "octets_of_uint (Suc n) v = octets_of_uint n (v div 256) @ [of_nat (v mod 256)]"

definition uint_of_octets :: "buffer \<Rightarrow> nat" where
  "uint_of_octets bs = foldl (\<lambda>acc b. acc * 256 + unat b) 0 bs"

text \<open>The number of octets of the shortest big-endian form of a value; 1 for zero.\<close>

function uint_size :: "nat \<Rightarrow> nat" where
  "uint_size v = (if v < 256 then 1 else Suc (uint_size (v div 256)))"
  by pat_completeness auto
termination
  by (relation "measure id") auto

declare uint_size.simps [simp del]

definition read :: "nat \<Rightarrow> buffer \<Rightarrow> error + (buffer \<times> buffer)" where
  "read n r = (if length r < n then Inl FormatError else Inr (take n r, drop n r))"

definition readUInt :: "nat \<Rightarrow> buffer \<Rightarrow> error + (nat \<times> buffer)" where
  "readUInt n r = andThen (read n r) (\<lambda>(bs, r). Inr (uint_of_octets bs, r))"

definition readUInt8 :: "buffer \<Rightarrow> error + (nat \<times> buffer)" where
  "readUInt8 = readUInt 1"

definition readUInt16 :: "buffer \<Rightarrow> error + (nat \<times> buffer)" where
  "readUInt16 = readUInt 2"

definition readUInt32 :: "buffer \<Rightarrow> error + (nat \<times> buffer)" where
  "readUInt32 = readUInt 4"

definition readLengthPrefix :: "buffer \<Rightarrow> error + (nat \<times> buffer)" where
  "readLengthPrefix r =
     andThen (readUInt8 r) (\<lambda>(l, r).
       if l < 128 then Inr (l, r)
       else if l = 128 then Inl FormatError
       else readUInt (l - 128) r)"

definition readVarOctetString :: "buffer \<Rightarrow> error + (buffer \<times> buffer)" where
  "readVarOctetString r = andThen (readLengthPrefix r) (\<lambda>(n, r). read n r)"

definition readVarUInt :: "buffer \<Rightarrow> error + (nat \<times> buffer)" where
  "readVarUInt r =
     andThen (readVarOctetString r) (\<lambda>(bs, r).
       if bs = [] then Inl FormatError else Inr (uint_of_octets bs, r))"

text \<open>\<open>writer.write(buffer)\<close>; named \<open>writeOctets\<close> because \<open>write\<close> is reserved.\<close>

definition writeOctets :: "buffer \<Rightarrow> buffer \<Rightarrow> error + buffer" where
  "writeOctets bs w = Inr (w @ bs)"

definition writeUInt :: "nat \<Rightarrow> nat \<Rightarrow> buffer \<Rightarrow> error + buffer" where
  "writeUInt v n w = (if v < 256 ^ n then Inr (w @ octets_of_uint n v) else Inl RangeError)"

definition writeUInt8 :: "nat \<Rightarrow> buffer \<Rightarrow> error + buffer" where
  "writeUInt8 v = writeUInt v 1"

definition writeUInt16 :: "nat \<Rightarrow> buffer \<Rightarrow> error + buffer" where
  "writeUInt16 v = writeUInt v 2"

definition writeUInt32 :: "nat \<Rightarrow> buffer \<Rightarrow> error + buffer" where
  "writeUInt32 v = writeUInt v 4"

definition writeLengthPrefix :: "nat \<Rightarrow> buffer \<Rightarrow> error + buffer" where
  "writeLengthPrefix len w =
     (if len < 128 then writeUInt8 len w
      else andThen (writeUInt8 (128 + uint_size len) w) (writeUInt len (uint_size len)))"

definition writeVarOctetString :: "buffer \<Rightarrow> buffer \<Rightarrow> error + buffer" where
  "writeVarOctetString bs w = andThen (writeLengthPrefix (length bs) w) (writeOctets bs)"

definition writeVarUInt :: "nat \<Rightarrow> buffer \<Rightarrow> error + buffer" where
  "writeVarUInt v w =
     andThen (writeLengthPrefix (uint_size v) w) (writeUInt v (uint_size v))"

section \<open>The identifier codec (uuid.ts)\<close>

text \<open>
  Modelled from the spec: \<open>readUuid\<close> and \<open>writeUuid\<close> of ./uuid, which index.ts
  imports. An identifier is 16 raw octets on the wire and the canonical lowercase
  hyphenated 36-character string in a record; writing a string whose length or shape
  does not match raises \<open>FormatError\<close>.
\<close>

definition hex_digit :: "nat \<Rightarrow> 16 word" where
  "hex_digit n = (if n < 10 then of_nat (48 + n) else of_nat (87 + n))"

definition hex_val :: "16 word \<Rightarrow> nat option" where
  "hex_val c =
     (let x = unat c in
      if 48 \<le> x \<and> x \<le> 57 then Some (x - 48)
      else if 97 \<le> x \<and> x \<le> 102 then Some (x - 87)
      else if 65 \<le> x \<and> x \<le> 70 then Some (x - 55)
      else None)"

definition is_lower_hex :: "16 word \<Rightarrow> bool" where
  "is_lower_hex c = (let x = unat c in (48 \<le> x \<and> x \<le> 57) \<or> (97 \<le> x \<and> x \<le> 102))"

fun hex_encode :: "buffer \<Rightarrow> jsstring" where
  "hex_encode [] = []"
| "hex_encode (b # bs) = hex_digit (unat b div 16) # hex_digit (unat b mod 16) # hex_encode bs"

fun hex_decode :: "jsstring \<Rightarrow> buffer option" where
  "hex_decode [] = Some []"
| "hex_decode [c] = None"
| "hex_decode (a # b # cs) =
     (case hex_val a of None \<Rightarrow> None | Some h \<Rightarrow>
      case hex_val b of None \<Rightarrow> None | Some l \<Rightarrow>
      case hex_decode cs of None \<Rightarrow> None | Some bs \<Rightarrow> Some (of_nat (16 * h + l) # bs))"

definition hyphen :: "16 word" where
  "hyphen = 45"

definition uuid_format :: "buffer \<Rightarrow> jsstring" where
  "uuid_format bs =
     (let h = hex_encode bs in
      take 8 h @ hyphen # take 4 (drop 8 h) @ hyphen # take 4 (drop 12 h) @ hyphen
      # take 4 (drop 16 h) @ hyphen # drop 20 h)"

definition uuid_shape :: "jsstring \<Rightarrow> bool" where
  "uuid_shape s =
     (length s = 36 \<and> s ! 8 = hyphen \<and> s ! 13 = hyphen \<and> s ! 18 = hyphen \<and> s ! 23 = hyphen)"

definition uuid_digits :: "jsstring \<Rightarrow> jsstring" where
  "uuid_digits s =
     take 8 s @ take 4 (drop 9 s) @ take 4 (drop 14 s) @ take 4 (drop 19 s) @ drop 24 s"

definition uuid_parse :: "jsstring \<Rightarrow> buffer option" where
  "uuid_parse s = (if uuid_shape s then hex_decode (uuid_digits s) else None)"

definition readUuid :: "buffer \<Rightarrow> error + (jsstring \<times> buffer)" where
  "readUuid r = andThen (read 16 r) (\<lambda>(bs, r). Inr (uuid_format bs, r))"

definition writeUuid :: "jsstring \<Rightarrow> buffer \<Rightarrow> error + buffer" where
  "writeUuid uuid w = (case uuid_parse uuid of None \<Rightarrow> Inl FormatError | Some bs \<Rightarrow> writeOctets bs w)"

definition canonical_uuid :: "jsstring \<Rightarrow> bool" where
  "canonical_uuid s = (uuid_shape s \<and> list_all is_lower_hex (uuid_digits s))"

section \<open>The transport envelope (package ilp-packet)\<close>

text \<open>
  The envelope records that \<open>IlpPacket\<close> serialises. Its four functions are external to
  index.ts and are parameters of every codec function below:
  \<open>serializeIlpPrepare\<close>, \<open>deserializeIlpPrepare\<close>, \<open>serializeIlpFulfill\<close> and
  \<open>deserializeIlpFulfill\<close>. \<open>expiresAt\<close> is a \<open>Date\<close>, held as its millisecond
  timestamp (what \<open>Number(ilp.expiresAt)\<close> yields).
\<close>

record IlpPrepare =
  amount :: jsstring
  destination :: jsstring
  executionCondition :: buffer
  expiresAt :: int
  data :: buffer

record IlpFulfill =
  fulfillment :: buffer
  fulfill_data :: buffer

section \<open>index.ts: constants and records\<close>

definition CCP_CONTROL_DESTINATION :: jsstring where
  "CCP_CONTROL_DESTINATION = js ''peer.route.control''"

definition CCP_UPDATE_DESTINATION :: jsstring where
  "CCP_UPDATE_DESTINATION = js ''peer.route.update''"

definition PEER_PROTOCOL_FULFILLMENT :: buffer where
  "PEER_PROTOCOL_FULFILLMENT = replicate 32 0"

text \<open>The octets of base64 \<open>Zmh6rfhivXdsj8GLjp+OIAiXFIVu4jOzkCpZHQ1fKSU=\<close>.\<close>

definition PEER_PROTOCOL_CONDITION :: buffer where
  "PEER_PROTOCOL_CONDITION =
     [0x66, 0x68, 0x7A, 0xAD, 0xF8, 0x62, 0xBD, 0x77, 0x6C, 0x8F, 0xC1, 0x8B, 0x8E, 0x9F, 0x8E, 0x20,
      0x08, 0x97, 0x14, 0x85, 0x6E, 0xE2, 0x33, 0xB3, 0x90, 0x2A, 0x59, 0x1D, 0x0D, 0x5F, 0x29, 0x25]"

definition PEER_PROTOCOL_EXPIRY_DURATION :: int where
  "PEER_PROTOCOL_EXPIRY_DURATION = 60000"

record CcpRouteControlRequest =
  speaker :: jsstring
  lastKnownRoutingTableId :: jsstring
  lastKnownEpoch :: nat
  features :: "jsstring list"

text \<open>
  \<open>CcpRouteProp\<close> is the union of \<open>CcpRoutePropBuffer\<close> (\<open>isUtf8: false\<close>, a Buffer
  value) and \<open>CcpRoutePropString\<close> (\<open>isUtf8: true\<close>, a string value): the tag is the
  constructor of the value. The fields \<open>id\<close> and \<open>value\<close> are \<open>prop_id\<close> and
  \<open>prop_value\<close> here.
\<close>

datatype PropValue = BufferValue buffer | StringValue jsstring

record CcpRouteProp =
  isWellKnown :: bool
  isTransitive :: bool
  isPartial :: bool
  prop_id :: nat
  prop_value :: PropValue

definition isUtf8 :: "CcpRouteProp \<Rightarrow> bool" where
  "isUtf8 prop = (case prop_value prop of BufferValue b \<Rightarrow> False | StringValue s \<Rightarrow> True)"

record CcpRoute =
  prefix :: jsstring
  path :: "jsstring list"
  auth :: buffer
  props :: "CcpRouteProp list"

record CcpRouteUpdateRequest =
  routingTableId :: jsstring
  currentEpochIndex :: nat
  fromEpochIndex :: nat
  toEpochIndex :: nat
  newRoutes :: "CcpRoute list"
  withdrawnRoutes :: "jsstring list"

section \<open>index.ts: route control requests\<close>

text \<open>Lines 84 to 103: the payload, read from \<open>new Reader(ilp.data)\<close>.\<close>

definition readUtf8String :: "buffer \<Rightarrow> error + (jsstring \<times> buffer)" where
  "readUtf8String r = andThen (readVarOctetString r) (\<lambda>(b, r). Inr (toString_utf8 b, r))"

definition parseControlPayload :: "buffer \<Rightarrow> error + CcpRouteControlRequest" where
  "parseControlPayload reader =
     andThen (readVarOctetString reader) (\<lambda>(b, r).
     let speaker = toString_ascii b in
     andThen (readUuid r) (\<lambda>(lastKnownRoutingTableId, r).
     andThen (readUInt32 r) (\<lambda>(lastKnownEpoch, r).
     andThen (readVarUInt r) (\<lambda>(featureCount, r).
     andThen (readN readUtf8String featureCount r) (\<lambda>(features, r).
     Inr \<lparr>speaker = speaker, lastKnownRoutingTableId = lastKnownRoutingTableId,
          lastKnownEpoch = lastKnownEpoch, features = features\<rparr>)))))"

definition deserializeCcpRouteControlRequest ::
  "(buffer \<Rightarrow> error + IlpPrepare) \<Rightarrow> int \<Rightarrow> buffer \<Rightarrow> error + CcpRouteControlRequest" where
  "deserializeCcpRouteControlRequest deserializeIlpPrepare now request =
     andThen (deserializeIlpPrepare request) (\<lambda>ilp.
     if destination ilp \<noteq> CCP_CONTROL_DESTINATION then
       Inl (TypeError (js ''packet is not a CCP route control request.''))
     else if PEER_PROTOCOL_CONDITION \<noteq> executionCondition ilp then
       Inl (Error (js ''packet does not contain correct condition for a peer protocol request.''))
     else if now > expiresAt ilp then
       Inl (Error (js ''CCP route control request packet is expired.''))
     else parseControlPayload (data ilp))"

text \<open>Lines 107 to 119: the payload, written to \<open>new Writer()\<close>.\<close>

definition writeUtf8String :: "jsstring \<Rightarrow> buffer \<Rightarrow> error + buffer" where
  "writeUtf8String s = writeVarOctetString (Buffer_from_utf8 s)"

definition controlPayload :: "CcpRouteControlRequest \<Rightarrow> error + buffer" where
  "controlPayload request =
     andThen (writeVarOctetString (Buffer_from_ascii (speaker request)) []) (\<lambda>w.
     andThen (writeUuid (lastKnownRoutingTableId request) w) (\<lambda>w.
     andThen (writeUInt32 (lastKnownEpoch request) w) (\<lambda>w.
     andThen (writeVarUInt (length (features request)) w) (\<lambda>w.
     forEach writeUtf8String (features request) w))))"

definition serializeCcpRouteControlRequest ::
  "(IlpPrepare \<Rightarrow> buffer) \<Rightarrow> int \<Rightarrow> CcpRouteControlRequest \<Rightarrow> error + buffer" where
  "serializeCcpRouteControlRequest serializeIlpPrepare now request =
     andThen (controlPayload request) (\<lambda>writer.
     Inr (serializeIlpPrepare
       \<lparr>amount = js ''0'',
        destination = CCP_CONTROL_DESTINATION,
        executionCondition = PEER_PROTOCOL_CONDITION,
        expiresAt = now + PEER_PROTOCOL_EXPIRY_DURATION,
        data = writer\<rparr>))"

section \<open>index.ts: route update requests\<close>

text \<open>Lines 171 to 199: one route property.\<close>

definition readProp :: "buffer \<Rightarrow> error + (CcpRouteProp \<times> buffer)" where
  "readProp r =
     andThen (readUInt8 r) (\<lambda>(meta, r).
     let isWellKnown = (meta AND 0x80 \<noteq> 0);
         isTransitive = (meta AND 0x40 \<noteq> 0);
         isPartial = (meta AND 0x20 \<noteq> 0);
         isUtf8 = (meta AND 0x10 \<noteq> 0) in
     andThen (readUInt16 r) (\<lambda>(id, r).
     andThen (readVarOctetString r) (\<lambda>(val, r).
     if isUtf8 then
       Inr (\<lparr>isWellKnown = isWellKnown, isTransitive = isTransitive, isPartial = isPartial,
             prop_id = id, prop_value = StringValue (toString_utf8 val)\<rparr>, r)
     else
       Inr (\<lparr>isWellKnown = isWellKnown, isTransitive = isTransitive, isPartial = isPartial,
             prop_id = id, prop_value = BufferValue val\<rparr>, r))))"

definition readAsciiString :: "buffer \<Rightarrow> error + (jsstring \<times> buffer)" where
  "readAsciiString r = andThen (readVarOctetString r) (\<lambda>(b, r). Inr (toString_ascii b, r))"

text \<open>Lines 158 to 207: one route.\<close>

definition readRoute :: "buffer \<Rightarrow> error + (CcpRoute \<times> buffer)" where
  "readRoute r =
     andThen (readAsciiString r) (\<lambda>(prefix, r).
     andThen (readVarUInt r) (\<lambda>(pathLength, r).
     andThen (readN readAsciiString pathLength r) (\<lambda>(path, r).
     andThen (read 32 r) (\<lambda>(auth, r).
     andThen (readVarUInt r) (\<lambda>(propCount, r).
     andThen (readN readProp propCount r) (\<lambda>(props, r).
     Inr (\<lparr>prefix = prefix, path = path, auth = auth, props = props\<rparr>, r)))))))"

text \<open>Lines 145 to 223: the payload.\<close>

definition parseUpdatePayload :: "buffer \<Rightarrow> error + CcpRouteUpdateRequest" where
  "parseUpdatePayload reader =
     andThen (readUuid reader) (\<lambda>(routingTableId, r).
     andThen (readUInt32 r) (\<lambda>(currentEpochIndex, r).
     andThen (readUInt32 r) (\<lambda>(fromEpochIndex, r).
     andThen (readUInt32 r) (\<lambda>(toEpochIndex, r).
     andThen (readVarUInt r) (\<lambda>(newRoutesCount, r).
     andThen (readN readRoute newRoutesCount r) (\<lambda>(newRoutes, r).
     andThen (readVarUInt r) (\<lambda>(withdrawnRoutesCount, r).
     andThen (readN readUtf8String withdrawnRoutesCount r) (\<lambda>(withdrawnRoutes, r).
     Inr \<lparr>routingTableId = routingTableId, currentEpochIndex = currentEpochIndex,
          fromEpochIndex = fromEpochIndex, toEpochIndex = toEpochIndex,
          newRoutes = newRoutes, withdrawnRoutes = withdrawnRoutes\<rparr>))))))))"

definition deserializeCcpRouteUpdateRequest ::
  "(buffer \<Rightarrow> error + IlpPrepare) \<Rightarrow> int \<Rightarrow> buffer \<Rightarrow> error + CcpRouteUpdateRequest" where
  "deserializeCcpRouteUpdateRequest deserializeIlpPrepare now request =
     andThen (deserializeIlpPrepare request) (\<lambda>ilp.
     if destination ilp \<noteq> CCP_UPDATE_DESTINATION then
       Inl (TypeError (js ''packet is not a CCP route update request.''))
     else if PEER_PROTOCOL_CONDITION \<noteq> executionCondition ilp then
       Inl (Error (js ''packet does not contain correct condition for a peer protocol request.''))
     else if now > expiresAt ilp then
       Inl (Error (js ''CCP route update request packet is expired.''))
     else parseUpdatePayload (data ilp))"

text \<open>Lines 251 to 263: the metadata octet of a property.\<close>

definition propMeta :: "CcpRouteProp \<Rightarrow> nat" where
  "propMeta prop =
     (let meta = 0;
          meta = meta OR (if isWellKnown prop then 0x80 else 0);
          meta = (if \<not> isWellKnown prop then
                    (let meta = meta OR (if isTransitive prop then 0x40 else 0) in
                     if isTransitive prop then meta OR (if isPartial prop then 0x20 else 0)
                     else meta)
                  else meta);
          meta = meta OR (if isUtf8 prop then 0x10 else 0)
      in meta)"

definition writeProp :: "CcpRouteProp \<Rightarrow> buffer \<Rightarrow> error + buffer" where
  "writeProp prop w =
     andThen (writeUInt8 (propMeta prop) w) (\<lambda>w.
     andThen (writeUInt16 (prop_id prop) w) (\<lambda>w.
     writeVarOctetString
       (case prop_value prop of StringValue s \<Rightarrow> Buffer_from_utf8 s | BufferValue b \<Rightarrow> b) w))"

definition writeAsciiString :: "jsstring \<Rightarrow> buffer \<Rightarrow> error + buffer" where
  "writeAsciiString s = writeVarOctetString (Buffer_from_ascii s)"

text \<open>Lines 237 to 270: one route.\<close>

definition writeRoute :: "CcpRoute \<Rightarrow> buffer \<Rightarrow> error + buffer" where
  "writeRoute route w =
     andThen (writeAsciiString (prefix route) w) (\<lambda>w.
     andThen (writeVarUInt (length (path route)) w) (\<lambda>w.
     andThen (forEach writeAsciiString (path route) w) (\<lambda>w.
     if length (auth route) \<noteq> 32 then
       Inl (Error (js ''route auth must be 32 bytes. prefix='' @ prefix route))
     else
       andThen (writeOctets (auth route) w) (\<lambda>w.
       andThen (writeVarUInt (length (props route)) w) (\<lambda>w.
       forEach writeProp (props route) w)))))"

text \<open>Lines 227 to 276: the payload.\<close>

definition updatePayload :: "CcpRouteUpdateRequest \<Rightarrow> error + buffer" where
  "updatePayload request =
     andThen (writeUuid (routingTableId request) []) (\<lambda>w.
     andThen (writeUInt32 (currentEpochIndex request) w) (\<lambda>w.
     andThen (writeUInt32 (fromEpochIndex request) w) (\<lambda>w.
     andThen (writeUInt32 (toEpochIndex request) w) (\<lambda>w.
     andThen (writeVarUInt (length (newRoutes request)) w) (\<lambda>w.
     andThen (forEach writeRoute (newRoutes request) w) (\<lambda>w.
     andThen (writeVarUInt (length (withdrawnRoutes request)) w) (\<lambda>w.
     forEach writeAsciiString (withdrawnRoutes request) w)))))))"

definition serializeCcpRouteUpdateRequest ::
  "(IlpPrepare \<Rightarrow> buffer) \<Rightarrow> int \<Rightarrow> CcpRouteUpdateRequest \<Rightarrow> error + buffer" where
  "serializeCcpRouteUpdateRequest serializeIlpPrepare now request =
     andThen (updatePayload request) (\<lambda>writer.
     Inr (serializeIlpPrepare
       \<lparr>amount = js ''0'',
        destination = CCP_UPDATE_DESTINATION,
        executionCondition = PEER_PROTOCOL_CONDITION,
        expiresAt = now + PEER_PROTOCOL_EXPIRY_DURATION,
        data = writer\<rparr>))"

section \<open>index.ts: responses\<close>

definition deserializeCcpResponse ::
  "(buffer \<Rightarrow> error + IlpFulfill) \<Rightarrow> buffer \<Rightarrow> error + unit" where
  "deserializeCcpResponse deserializeIlpFulfill response =
     andThen (deserializeIlpFulfill response) (\<lambda>ilp.
     if PEER_PROTOCOL_FULFILLMENT \<noteq> fulfillment ilp then
       Inl (Error (js ''CCP response does not contain the expected fulfillment.''))
     else Inr ())"

definition serializeCcpResponse :: "(IlpFulfill \<Rightarrow> buffer) \<Rightarrow> buffer" where
  "serializeCcpResponse serializeIlpFulfill =
     serializeIlpFulfill \<lparr>fulfillment = PEER_PROTOCOL_FULFILLMENT, fulfill_data = []\<rparr>"

section \<open>Well-formed requests\<close>

text \<open>
  What the record types leave implicit: a JavaScript length is at most
  \<open>Number.MAX_SAFE_INTEGER\<close>; ASCII text has only code units below 128; UTF-8 text has
  no unpaired surrogate; an identifier is in canonical form; an epoch is an unsigned
  32-bit and a property id an unsigned 16-bit integer; \<open>auth\<close> has 32 octets; and the
  flags of a property obey the dependency rule: \<open>isTransitive\<close> only without
  \<open>isWellKnown\<close>, \<open>isPartial\<close> only with \<open>isTransitive\<close> and without \<open>isWellKnown\<close>.
\<close>

definition MAX_SAFE_INTEGER :: nat where
  "MAX_SAFE_INTEGER = 2 ^ 53 - 1"

definition safe_length :: "'a list \<Rightarrow> bool" where
  "safe_length xs = (length xs \<le> MAX_SAFE_INTEGER)"

definition ascii_text :: "jsstring \<Rightarrow> bool" where
  "ascii_text s = (is_ascii s \<and> safe_length s)"

definition utf8_text :: "jsstring \<Rightarrow> bool" where
  "utf8_text s = (well_formed_utf16 s \<and> safe_length s)"

definition valid_control :: "CcpRouteControlRequest \<Rightarrow> bool" where
  "valid_control r =
     (ascii_text (speaker r) \<and> canonical_uuid (lastKnownRoutingTableId r)
      \<and> lastKnownEpoch r < 2 ^ 32
      \<and> safe_length (features r) \<and> list_all utf8_text (features r))"

definition flags_consistent :: "CcpRouteProp \<Rightarrow> bool" where
  "flags_consistent p =
     ((isTransitive p \<longrightarrow> \<not> isWellKnown p)
      \<and> (isPartial p \<longrightarrow> isTransitive p \<and> \<not> isWellKnown p))"

definition valid_prop :: "CcpRouteProp \<Rightarrow> bool" where
  "valid_prop p =
     (flags_consistent p \<and> prop_id p < 2 ^ 16
      \<and> (case prop_value p of BufferValue b \<Rightarrow> safe_length b | StringValue s \<Rightarrow> utf8_text s))"

definition valid_route :: "CcpRoute \<Rightarrow> bool" where
  "valid_route r =
     (ascii_text (prefix r) \<and> safe_length (path r) \<and> list_all ascii_text (path r)
      \<and> length (auth r) = 32
      \<and> safe_length (props r) \<and> list_all valid_prop (props r))"

definition valid_update :: "CcpRouteUpdateRequest \<Rightarrow> bool" where
  "valid_update u =
     (canonical_uuid (routingTableId u)
      \<and> currentEpochIndex u < 2 ^ 32 \<and> fromEpochIndex u < 2 ^ 32 \<and> toEpochIndex u < 2 ^ 32
      \<and> safe_length (newRoutes u) \<and> list_all valid_route (newRoutes u)
      \<and> safe_length (withdrawnRoutes u) \<and> list_all ascii_text (withdrawnRoutes u))"

text \<open>
  A writer and a reader agree on a value when the writer appends some octets, whatever
  was written before, and the reader takes exactly these octets back to the value,
  whatever follows.
\<close>

definition agree ::
  "('a \<Rightarrow> buffer \<Rightarrow> error + buffer) \<Rightarrow> (buffer \<Rightarrow> error + ('a \<times> buffer)) \<Rightarrow> 'a \<Rightarrow> bool" where
  "agree wr rd x = (\<exists>bs. (\<forall>w. wr x w = Inr (w @ bs)) \<and> (\<forall>r. rd (bs @ r) = Inr (x, r)))"

text \<open>\<open>String.prototype.includes\<close>, for statements about error messages.\<close>

fun starts_with :: "jsstring \<Rightarrow> jsstring \<Rightarrow> bool" where
  "starts_with s [] = True"
| "starts_with [] (p # ps) = False"
| "starts_with (c # cs) (p # ps) = (c = p \<and> starts_with cs ps)"

fun includes_str :: "jsstring \<Rightarrow> jsstring \<Rightarrow> bool" where
  "includes_str [] p = (p = [])"
| "includes_str (c # cs) p = (starts_with (c # cs) p \<or> includes_str cs p)"

section \<open>A sample envelope codec\<close>

text \<open>
  A small envelope codec over the same primitives, at which the envelope parameters are
  instantiated in the examples: a type octet, then the fields in a fixed order, the
  payload last.
\<close>

definition sample_serializeIlpPrepare :: "IlpPrepare \<Rightarrow> buffer" where
  "sample_serializeIlpPrepare p =
     12 # octets_of_uint 8 (nat (expiresAt p)) @ executionCondition p
     @ of_nat (length (destination p)) # Buffer_from_ascii (destination p)
     @ of_nat (length (amount p)) # Buffer_from_ascii (amount p)
     @ data p"

definition sample_deserializeIlpPrepare :: "buffer \<Rightarrow> error + IlpPrepare" where
  "sample_deserializeIlpPrepare b =
     andThen (readUInt8 b) (\<lambda>(t, r).
     if t \<noteq> 12 then Inl FormatError else
     andThen (readUInt 8 r) (\<lambda>(e, r).
     andThen (read 32 r) (\<lambda>(c, r).
     andThen (readVarOctetString r) (\<lambda>(d, r).
     andThen (readVarOctetString r) (\<lambda>(a, r).
     Inr \<lparr>amount = toString_ascii a, destination = toString_ascii d,
          executionCondition = c, expiresAt = int e, data = r\<rparr>)))))"

definition sample_serializeIlpFulfill :: "IlpFulfill \<Rightarrow> buffer" where
  "sample_serializeIlpFulfill f = 13 # fulfillment f @ fulfill_data f"

definition sample_deserializeIlpFulfill :: "buffer \<Rightarrow> error + IlpFulfill" where
  "sample_deserializeIlpFulfill b =
     andThen (readUInt8 b) (\<lambda>(t, r).
     if t \<noteq> 13 then Inl FormatError else
     andThen (read 32 r) (\<lambda>(f, r).
     Inr \<lparr>fulfillment = f, fulfill_data = r\<rparr>))"

section \<open>Envelopes of peer-protocol requests and examples\<close>

text \<open>
  The envelope both encoders hand to \<open>serializeIlpPrepare\<close> (lines 121 to 127 and 278
  to 284), for a destination, the time of encoding and a payload.
\<close>

definition peer_request :: "jsstring \<Rightarrow> int \<Rightarrow> buffer \<Rightarrow> IlpPrepare" where
  "peer_request dest now payload =
     \<lparr>amount = js ''0'', destination = dest, executionCondition = PEER_PROTOCOL_CONDITION,
      expiresAt = now + PEER_PROTOCOL_EXPIRY_DURATION, data = payload\<rparr>"

text \<open>The envelope codec gives back every such envelope that it has serialised.\<close>

definition envelope_roundtrips ::
  "(IlpPrepare \<Rightarrow> buffer) \<Rightarrow> (buffer \<Rightarrow> error + IlpPrepare) \<Rightarrow> jsstring \<Rightarrow> int \<Rightarrow> bool" where
  "envelope_roundtrips serializeIlpPrepare deserializeIlpPrepare dest now =
     (\<forall>payload. deserializeIlpPrepare (serializeIlpPrepare (peer_request dest now payload))
                = Inr (peer_request dest now payload))"

text \<open>
  Example values: the control request and the route of section 8 of the specification,
  a second route with a path and a text property, and an update request whose
  \<open>fromEpochIndex\<close> is above its \<open>toEpochIndex\<close>.
\<close>

definition zero_uuid :: jsstring where
  "zero_uuid = js ''00000000-0000-0000-0000-000000000000''"

definition example_control :: CcpRouteControlRequest where
  "example_control =
     \<lparr>speaker = js ''g.alice'', lastKnownRoutingTableId = zero_uuid,
      lastKnownEpoch = 0, features = []\<rparr>"

definition example_route :: CcpRoute where
  "example_route =
     \<lparr>prefix = js ''g.eu'', path = [], auth = replicate 32 0,
      props = [\<lparr>isWellKnown = True, isTransitive = False, isPartial = False,
                prop_id = 0, prop_value = BufferValue []\<rparr>]\<rparr>"

definition example_route2 :: CcpRoute where
  "example_route2 =
     \<lparr>prefix = js ''g.us.east'', path = [js ''g.a'', js ''g.b''], auth = replicate 32 0xAB,
      props = [\<lparr>isWellKnown = False, isTransitive = True, isPartial = True,
                prop_id = 513, prop_value = StringValue [0x68, 0xE9, 0x20AC, 0xD83D, 0xDE00]\<rparr>,
               \<lparr>isWellKnown = False, isTransitive = False, isPartial = False,
                prop_id = 7, prop_value = BufferValue [0xFF, 0x00]\<rparr>]\<rparr>"

definition example_update :: CcpRouteUpdateRequest where
  "example_update =
     \<lparr>routingTableId = js ''3b069822-a754-4e44-8a60-0f9f7084144d'',
      currentEpochIndex = 5, fromEpochIndex = 9, toEpochIndex = 2,
      newRoutes = [example_route, example_route2], withdrawnRoutes = [js ''g.old'']\<rparr>"






definition flipped_condition :: buffer where
  "flipped_condition = PEER_PROTOCOL_CONDITION [0 := 0x67]"

definition inconsistent_prop :: CcpRouteProp where
  "inconsistent_prop =
     \<lparr>isWellKnown = True, isTransitive = True, isPartial = True,
      prop_id = 0, prop_value = BufferValue []\<rparr>"

section \<open>Properties of the text encodings and the primitives\<close>

lemma andThen_Inr [simp]: "andThen (Inr x) f = f x"
  by (simp add: andThen_def)

lemma andThen_Inl [simp]: "andThen (Inl e) f = Inl e"
  by (simp add: andThen_def)

lemma unat_octet: "x < 256 \<Longrightarrow> unat (of_nat x :: byte) = x"
  by (simp only: unat_of_nat) simp

lemma length_octets_of_uint [simp]: "length (octets_of_uint n v) = n"
  by (induction n arbitrary: v) simp_all

lemma uint_of_octets_snoc: "uint_of_octets (bs @ [b]) = uint_of_octets bs * 256 + unat b"
  by (simp add: uint_of_octets_def)

lemma uint_of_octets_of_uint: "v < 256 ^ n \<Longrightarrow> uint_of_octets (octets_of_uint n v) = v"
proof (induction n arbitrary: v)
  case 0
  then show ?case by (simp add: uint_of_octets_def)
next
  case (Suc n)
  then have "v div 256 < 256 ^ n"
    by (simp add: less_mult_imp_div_less mult.commute)
  then have "uint_of_octets (octets_of_uint n (v div 256)) = v div 256"
    by (rule Suc.IH)
  moreover have "unat (of_nat (v mod 256) :: byte) = v mod 256"
    by (rule unat_octet) simp
  ultimately show ?case
    by (simp only: octets_of_uint.simps uint_of_octets_snoc) simp
qed

lemma uint_size_pos: "0 < uint_size v"
  by (subst uint_size.simps) simp

lemma uint_size_fits: "v < 256 ^ uint_size v"
proof (induction v rule: uint_size.induct)
  case (1 v)
  show ?case
  proof (cases "v < 256")
    case True
    then show ?thesis by (subst uint_size.simps) simp
  next
    case False
    then have "v div 256 < 256 ^ uint_size (v div 256)" by (rule 1)
    then have "v < 256 * 256 ^ uint_size (v div 256)"
      by (metis div_less_iff_less_mult mult.commute zero_less_numeral)
    then show ?thesis using False by (subst uint_size.simps) simp
  qed
qed

lemma uint_size_le: "v < 256 ^ k \<Longrightarrow> 0 < k \<Longrightarrow> uint_size v \<le> k"
proof (induction k arbitrary: v)
  case 0
  then show ?case by simp
next
  case (Suc k)
  show ?case
  proof (cases "v < 256")
    case True
    then show ?thesis by (subst uint_size.simps) simp
  next
    case False
    then have k: "0 < k" using Suc.prems(1) by (cases k) simp_all
    have "v div 256 < 256 ^ k"
      using Suc.prems(1) by (simp add: less_mult_imp_div_less mult.commute)
    then have "uint_size (v div 256) \<le> k" using k by (rule Suc.IH)
    then show ?thesis using False by (subst uint_size.simps) simp
  qed
qed

lemma uint_size_safe: "v \<le> 3 * MAX_SAFE_INTEGER \<Longrightarrow> uint_size v \<le> 7"
proof -
  assume "v \<le> 3 * MAX_SAFE_INTEGER"
  then have "v < 256 ^ 7" by (simp add: MAX_SAFE_INTEGER_def)
  then show ?thesis by (rule uint_size_le) simp
qed

lemma read_append: "read (length bs) (bs @ r) = Inr (bs, r)"
  by (simp add: read_def)

lemma readUInt_octets:
  "v < 256 ^ n \<Longrightarrow> readUInt n (octets_of_uint n v @ r) = Inr (v, r)"
  using read_append [of "octets_of_uint n v" r]
  by (simp add: readUInt_def uint_of_octets_of_uint)

lemma agreeI:
  "(\<And>w. wr x w = Inr (w @ bs)) \<Longrightarrow> (\<And>r. rd (bs @ r) = Inr (x, r)) \<Longrightarrow> agree wr rd x"
  unfolding agree_def by blast

lemma agreeD:
  "agree wr rd x \<Longrightarrow> \<exists>bs. (\<forall>w. wr x w = Inr (w @ bs)) \<and> (\<forall>r. rd (bs @ r) = Inr (x, r))"
  unfolding agree_def by blast

lemma agree_UInt: "v < 256 ^ n \<Longrightarrow> agree (\<lambda>v. writeUInt v n) (readUInt n) v"
  by (rule agreeI [where bs = "octets_of_uint n v"])
     (simp_all add: writeUInt_def readUInt_octets)

lemma agree_UInt8: "v < 256 \<Longrightarrow> agree writeUInt8 readUInt8 v"
  using agree_UInt [of v 1] by (simp add: writeUInt8_def [abs_def] readUInt8_def)

lemma agree_UInt16: "v < 2 ^ 16 \<Longrightarrow> agree writeUInt16 readUInt16 v"
  using agree_UInt [of v 2] by (simp add: writeUInt16_def [abs_def] readUInt16_def)

lemma agree_UInt32: "v < 2 ^ 32 \<Longrightarrow> agree writeUInt32 readUInt32 v"
  using agree_UInt [of v 4] by (simp add: writeUInt32_def [abs_def] readUInt32_def)

lemma agree_LengthPrefix:
  assumes "uint_size n \<le> 127"
  shows "agree writeLengthPrefix readLengthPrefix n"
proof (cases "n < 128")
  case True
  then have n: "n < 256 ^ 1" by simp
  show ?thesis
  proof (rule agreeI [where bs = "octets_of_uint 1 n"])
    show "writeLengthPrefix n w = Inr (w @ octets_of_uint 1 n)" for w
      using True by (simp add: writeLengthPrefix_def writeUInt8_def writeUInt_def)
    show "readLengthPrefix (octets_of_uint 1 n @ r) = Inr (n, r)" for r
      using True readUInt_octets [OF n, of r] by (simp add: readLengthPrefix_def readUInt8_def)
  qed
next
  case False
  define k where "k = uint_size n"
  have k: "0 < k" "k \<le> 127" "n < 256 ^ k"
    unfolding k_def using assms uint_size_pos uint_size_fits by simp_all
  then have h: "128 + k < 256 ^ 1" by simp
  show ?thesis
  proof (rule agreeI [where bs = "octets_of_uint 1 (128 + k) @ octets_of_uint k n"])
    show "writeLengthPrefix n w = Inr (w @ octets_of_uint 1 (128 + k) @ octets_of_uint k n)" for w
      using False k
      by (simp add: writeLengthPrefix_def writeUInt8_def writeUInt_def k_def [symmetric])
    show "readLengthPrefix ((octets_of_uint 1 (128 + k) @ octets_of_uint k n) @ r) = Inr (n, r)" for r
      using readUInt_octets [OF h, of "octets_of_uint k n @ r"] readUInt_octets [OF k(3), of r] k
      by (simp add: readLengthPrefix_def readUInt8_def)
  qed
qed

lemma agree_VarOctetString:
  assumes "uint_size (length bs) \<le> 127"
  shows "agree writeVarOctetString readVarOctetString bs"
proof -
  obtain p where p: "\<forall>w. writeLengthPrefix (length bs) w = Inr (w @ p)"
    "\<forall>r. readLengthPrefix (p @ r) = Inr (length bs, r)"
    using agreeD [OF agree_LengthPrefix [OF assms]] by blast
  show ?thesis
    by (rule agreeI [where bs = "p @ bs"])
       (simp_all add: writeVarOctetString_def readVarOctetString_def p writeOctets_def read_append)
qed

lemma agree_VarUInt:
  assumes "uint_size v \<le> 127"
  shows "agree writeVarUInt readVarUInt v"
proof -
  define k where "k = uint_size v"
  have k: "0 < k" "k \<le> 127" "v < 256 ^ k"
    unfolding k_def using assms uint_size_pos uint_size_fits by simp_all
  have "uint_size k \<le> 1" using k by (intro uint_size_le) simp_all
  then have "uint_size k \<le> 127" by simp
  then obtain p where p: "\<forall>w. writeLengthPrefix k w = Inr (w @ p)"
    "\<forall>r. readLengthPrefix (p @ r) = Inr (k, r)"
    using agreeD [OF agree_LengthPrefix] by blast
  have ne: "octets_of_uint k v \<noteq> []"
    using k(1) by (metis length_octets_of_uint length_0_conv less_numeral_extra(3))
  show ?thesis
  proof (rule agreeI [where bs = "p @ octets_of_uint k v"])
    show "writeVarUInt v w = Inr (w @ p @ octets_of_uint k v)" for w
      using k by (simp add: writeVarUInt_def k_def [symmetric] p writeUInt_def)
    show "readVarUInt ((p @ octets_of_uint k v) @ r) = Inr (v, r)" for r
      using read_append [of "octets_of_uint k v" r] ne k
      by (simp add: readVarUInt_def readVarOctetString_def p uint_of_octets_of_uint)
  qed
qed

lemma agree_list:
  assumes "list_all (agree wr rd) xs"
  shows "\<exists>bs. (\<forall>w. forEach wr xs w = Inr (w @ bs))
             \<and> (\<forall>r. readN rd (length xs) (bs @ r) = Inr (xs, r))"
  using assms
proof (induction xs)
  case Nil
  then show ?case by simp
next
  case (Cons x xs)
  then have "agree wr rd x" by simp
  from agreeD [OF this]
  obtain b where b: "\<forall>w. wr x w = Inr (w @ b)" "\<forall>r. rd (b @ r) = Inr (x, r)"
    by blast
  from Cons obtain bs where bs: "\<forall>w. forEach wr xs w = Inr (w @ bs)"
    "\<forall>r. readN rd (length xs) (bs @ r) = Inr (xs, r)"
    by auto
  have "\<forall>w. forEach wr (x # xs) w = Inr (w @ b @ bs)"
    by (simp add: b bs)
  moreover have "\<forall>r. readN rd (length (x # xs)) ((b @ bs) @ r) = Inr (x # xs, r)"
    by (simp add: b bs)
  ultimately show ?case by blast
qed

text \<open>A count followed by that many items.\<close>

lemma agree_counted:
  assumes "safe_length xs" "list_all (agree wr rd) xs"
  shows "\<exists>bs. (\<forall>w. andThen (writeVarUInt (length xs) w) (forEach wr xs) = Inr (w @ bs))
             \<and> (\<forall>r. andThen (readVarUInt (bs @ r)) (\<lambda>(n, r). readN rd n r) = Inr (xs, r))"
proof -
  have "uint_size (length xs) \<le> 7"
    using assms(1) by (intro uint_size_safe) (simp add: safe_length_def)
  then have "agree writeVarUInt readVarUInt (length xs)"
    by (intro agree_VarUInt) simp
  from agreeD [OF this]
  obtain c where c: "\<forall>w. writeVarUInt (length xs) w = Inr (w @ c)"
    "\<forall>r. readVarUInt (c @ r) = Inr (length xs, r)"
    by blast
  obtain bs where bs: "\<forall>w. forEach wr xs w = Inr (w @ bs)"
    "\<forall>r. readN rd (length xs) (bs @ r) = Inr (xs, r)"
    using agree_list [OF assms(2)] by blast
  have "\<forall>w. andThen (writeVarUInt (length xs) w) (forEach wr xs) = Inr (w @ c @ bs)"
    by (simp add: c bs)
  moreover have "\<forall>r. andThen (readVarUInt ((c @ bs) @ r)) (\<lambda>(n, r). readN rd n r) = Inr (xs, r)"
    by (simp add: c bs)
  ultimately show ?thesis by blast
qed

lemma unat_and_7F: "unat ((b :: byte) AND 0x7F) = unat b mod 128"
proof -
  have "(b AND 0x7F) = take_bit 7 b"
    by (simp add: take_bit_eq_mask mask_eq_exp_minus_1)
  moreover have "unat (take_bit 7 b) = take_bit 7 (unat b)"
    by (rule unsigned_take_bit_eq)
  moreover have "take_bit 7 (unat b) = unat b mod 128"
    by (simp add: take_bit_eq_mod)
  ultimately show ?thesis by (simp only:)
qed

lemma unit_of_unat: "(of_nat (unat (c :: 16 word)) :: 16 word) = c"
  by simp

lemma unat_low_octet: "unat (of_nat (unat (c :: 16 word) mod 256) :: byte) = unat c mod 256"
  by (simp only: unat_of_nat) simp

lemma ascii_unit_roundtrip:
  assumes "unat (c :: 16 word) < 128"
  shows "of_nat (unat ((of_nat (unat c mod 256) :: byte) AND 0x7F)) = c"
proof -
  have "unat ((of_nat (unat c mod 256) :: byte) AND 0x7F) = unat c"
    unfolding unat_and_7F unat_low_octet using assms by simp
  then show ?thesis by (simp only: unit_of_unat)
qed

lemma ascii_roundtrip: "is_ascii s \<Longrightarrow> toString_ascii (Buffer_from_ascii s) = s"
proof (induction s)
  case Nil
  then show ?case by (simp add: toString_ascii_def Buffer_from_ascii_def)
next
  case (Cons c s)
  then have "unat c < 128" "toString_ascii (Buffer_from_ascii s) = s"
    by (simp_all add: is_ascii_def)
  then show ?case
    using ascii_unit_roundtrip [of c]
    by (simp only: toString_ascii_def Buffer_from_ascii_def list.map)
qed

lemma utf8_of_ascii: "is_ascii s \<Longrightarrow> toString_utf8 (Buffer_from_ascii s) = s"
proof (induction s)
  case Nil
  then show ?case by (simp add: Buffer_from_ascii_def)
next
  case (Cons c s)
  then have c: "unat c < 128" and ih: "toString_utf8 (Buffer_from_ascii s) = s"
    by (simp_all add: is_ascii_def)
  have u: "unat (of_nat (unat c mod 256) :: byte) = unat c"
    unfolding unat_low_octet using c by simp
  have "Buffer_from_ascii (c # s) = of_nat (unat c mod 256) # Buffer_from_ascii s"
    by (simp only: Buffer_from_ascii_def list.map)
  then show ?case
    using c ih by (simp only: toString_utf8.simps Let_def u if_True unit_of_unat)
qed

lemma split64:
  fixes x :: nat
  shows "x div 4096 = x div 64 div 64" "x div 262144 = x div 64 div 64 div 64"
  by (simp_all add: div_mult2_eq)

lemma decode_one:
  assumes "x < 0x80"
  shows "toString_utf8 (of_nat x # bs) = of_nat x # toString_utf8 bs"
proof -
  define b0 :: byte where "b0 = of_nat x"
  have "unat b0 = x" unfolding b0_def using assms by (intro unat_octet) simp
  then show ?thesis unfolding b0_def [symmetric] using assms by simp
qed

lemma decode_two:
  assumes "0x80 \<le> x" "x < 0x800"
  shows "toString_utf8 (of_nat (0xC0 + x div 64) # of_nat (0x80 + x mod 64) # bs)
         = of_nat x # toString_utf8 bs"
proof -
  define b0 :: byte where "b0 = of_nat (0xC0 + x div 64)"
  define b1 :: byte where "b1 = of_nat (0x80 + x mod 64)"
  have u0: "unat b0 = 0xC0 + x div 64" unfolding b0_def using assms by (intro unat_octet) arith
  have u1: "unat b1 = 0x80 + x mod 64" unfolding b1_def by (intro unat_octet) arith
  have r: "0xC2 \<le> 0xC0 + x div 64" "0xC0 + x div 64 \<le> 0xDF" using assms by arith+
  have v: "x div 64 * 64 + x mod 64 = x" by simp
  show ?thesis
    unfolding b0_def [symmetric] b1_def [symmetric]
    using r by (simp add: u0 u1 in_range_def v)
qed

lemma decode_three:
  assumes "0x800 \<le> x" "x < 0x10000" "\<not> is_high_surrogate x" "\<not> is_low_surrogate x"
  shows "toString_utf8 (of_nat (0xE0 + x div 4096) # of_nat (0x80 + x div 64 mod 64)
                        # of_nat (0x80 + x mod 64) # bs)
         = of_nat x # toString_utf8 bs"
proof -
  define y where "y = x div 64"
  define z where "z = y div 64"
  define m where "m = y mod 64"
  define l where "l = x mod 64"
  have xy: "x = 64 * y + l" "l < 64" unfolding y_def l_def by simp_all
  have yz: "y = 64 * z + m" "m < 64" unfolding z_def m_def by simp_all
  have names: "x div 4096 = z" "x div 64 mod 64 = m" "x mod 64 = l"
    by (simp_all add: split64 y_def z_def m_def l_def)
  define b0 :: byte where "b0 = of_nat (0xE0 + z)"
  define b1 :: byte where "b1 = of_nat (0x80 + m)"
  define b2 :: byte where "b2 = of_nat (0x80 + l)"
  have z: "z \<le> 0xF" using assms xy yz by linarith
  have u0: "unat b0 = 0xE0 + z" unfolding b0_def using z by (intro unat_octet) linarith
  have u1: "unat b1 = 0x80 + m" unfolding b1_def using yz by (intro unat_octet) linarith
  have u2: "unat b2 = 0x80 + l" unfolding b2_def using xy by (intro unat_octet) linarith
  have lo: "second_lo (0xE0 + z) \<le> 0x80 + m"
  proof (cases "z = 0")
    case True
    then have "0x20 \<le> m" using assms xy yz by linarith
    then show ?thesis using True by (simp add: second_lo_def)
  next
    case False
    then show ?thesis using z by (simp add: second_lo_def)
  qed
  have hi: "0x80 + m \<le> second_hi (0xE0 + z)"
  proof (cases "z = 13")
    case True
    have "x < 0xE000" using True xy yz by linarith
    then have "x < 0xD800"
      using assms unfolding is_high_surrogate_def is_low_surrogate_def by linarith
    then have "m < 0x20" using True xy yz by linarith
    then show ?thesis using True by (simp add: second_hi_def)
  next
    case False
    then show ?thesis using yz z by (simp add: second_hi_def)
  qed
  have v: "z * 4096 + m * 64 + l = x" using xy yz by linarith
  show ?thesis
    unfolding names b0_def [symmetric] b1_def [symmetric] b2_def [symmetric]
    using z lo hi yz xy by (simp add: u0 u1 u2 in_range_def v)
qed

lemma decode_four:
  assumes "0x10000 \<le> x" "x < 0x110000"
  shows "toString_utf8 (utf8_four x @ bs) = utf16_units x @ toString_utf8 bs"
proof -
  define y where "y = x div 64"
  define z where "z = y div 64"
  define t where "t = z div 64"
  define n where "n = z mod 64"
  define m where "m = y mod 64"
  define l where "l = x mod 64"
  have xy: "x = 64 * y + l" "l < 64" unfolding y_def l_def by simp_all
  have yz: "y = 64 * z + m" "m < 64" unfolding z_def m_def by simp_all
  have zt: "z = 64 * t + n" "n < 64" unfolding t_def n_def by simp_all
  have names: "x div 262144 = t" "x div 4096 mod 64 = n" "x div 64 mod 64 = m" "x mod 64 = l"
    by (simp_all add: split64 y_def z_def t_def n_def m_def l_def)
  define b0 :: byte where "b0 = of_nat (0xF0 + t)"
  define b1 :: byte where "b1 = of_nat (0x80 + n)"
  define b2 :: byte where "b2 = of_nat (0x80 + m)"
  define b3 :: byte where "b3 = of_nat (0x80 + l)"
  have t: "t \<le> 4" using assms xy yz zt by linarith
  have u0: "unat b0 = 0xF0 + t" unfolding b0_def using t by (intro unat_octet) linarith
  have u1: "unat b1 = 0x80 + n" unfolding b1_def using zt by (intro unat_octet) linarith
  have u2: "unat b2 = 0x80 + m" unfolding b2_def using yz by (intro unat_octet) linarith
  have u3: "unat b3 = 0x80 + l" unfolding b3_def using xy by (intro unat_octet) linarith
  have lo: "second_lo (0xF0 + t) \<le> 0x80 + n"
  proof (cases "t = 0")
    case True
    then have "0x10 \<le> n" using assms xy yz zt by linarith
    then show ?thesis using True by (simp add: second_lo_def)
  next
    case False
    then show ?thesis by (simp add: second_lo_def)
  qed
  have hi: "0x80 + n \<le> second_hi (0xF0 + t)"
  proof (cases "t = 4")
    case True
    then have "n < 0x10" using assms xy yz zt by linarith
    then show ?thesis using True by (simp add: second_hi_def)
  next
    case False
    then show ?thesis using zt t by (simp add: second_hi_def)
  qed
  have v: "t * 262144 + n * 4096 + m * 64 + l = x" using xy yz zt by linarith
  have four: "utf8_four x = [b0, b1, b2, b3]"
    unfolding utf8_four_def names b0_def b1_def b2_def b3_def by (rule refl)
  show ?thesis
    unfolding four
    using t lo hi zt yz xy by (simp add: u0 u1 u2 u3 in_range_def v)
qed

lemma unat_unit_lt: "unat (c :: 16 word) < 65536"
  using unsigned_less [of c, where ?'a = nat] by simp

lemma surrogate_pair_units:
  assumes "is_high_surrogate (unat c)" "is_low_surrogate (unat d)"
  shows "utf16_units (0x10000 + (unat c - 0xD800) * 1024 + (unat d - 0xDC00)) = [c, d]"
proof -
  define h where "h = unat c - 0xD800"
  define l where "l = unat d - 0xDC00"
  have h: "unat c = 0xD800 + h" "h < 1024"
    using assms(1) unfolding h_def is_high_surrogate_def by linarith+
  have l: "unat d = 0xDC00 + l" "l < 1024"
    using assms(2) unfolding l_def is_low_surrogate_def by linarith+
  have "(h * 1024 + l) div 1024 = h" "(h * 1024 + l) mod 1024 = l"
    using l(2) by simp_all
  then have "utf16_units (0x10000 + h * 1024 + l) = [of_nat (unat c), of_nat (unat d)]"
    unfolding utf16_units_def h(1) l(1) by (simp add: add.assoc)
  then show ?thesis
    unfolding h_def [symmetric] l_def [symmetric] by (simp only: unit_of_unat)
qed

lemma surrogate_pair_range:
  assumes "is_high_surrogate x" "is_low_surrogate y"
  shows "0x10000 \<le> 0x10000 + (x - 0xD800) * 1024 + (y - 0xDC00)"
    "0x10000 + (x - 0xD800) * 1024 + (y - 0xDC00) < 0x110000"
  using assms unfolding is_high_surrogate_def is_low_surrogate_def by linarith+

lemma utf8_roundtrip: "well_formed_utf16 s \<Longrightarrow> toString_utf8 (Buffer_from_utf8 s) = s"
proof (induction s rule: well_formed_utf16.induct)
  case 1
  then show ?case by simp
next
  case (2 c cs)
  define x where "x = unat c"
  have xlt: "x < 65536" unfolding x_def by (rule unat_unit_lt)
  have cx: "of_nat x = c" unfolding x_def by (rule unit_of_unat)
  show ?case
  proof (cases "is_high_surrogate x")
    case True
    then obtain d ds where cs: "cs = d # ds" and d: "is_low_surrogate (unat d)"
      and wf: "well_formed_utf16 ds"
      using 2(3) unfolding x_def by (cases cs) simp_all
    have ih: "toString_utf8 (Buffer_from_utf8 ds) = ds"
      using 2(1) True cs d wf unfolding x_def by simp
    have x: "\<not> x < 0x80" "\<not> x < 0x800" using True unfolding is_high_surrogate_def by linarith+
    have "Buffer_from_utf8 (c # cs)
          = utf8_four (0x10000 + (x - 0xD800) * 1024 + (unat d - 0xDC00)) @ Buffer_from_utf8 ds"
      using True x d unfolding cs x_def by (simp add: Let_def)
    then show ?thesis
      using decode_four [OF surrogate_pair_range [OF True d]]
        surrogate_pair_units [of c d] True d ih
      unfolding x_def cs by simp
  next
    case False
    then have nl: "\<not> is_low_surrogate x" and wf: "well_formed_utf16 cs"
      using 2(3) unfolding x_def by simp_all
    have ih: "toString_utf8 (Buffer_from_utf8 cs) = cs"
      using 2(2) False wf unfolding x_def by simp
    consider "x < 0x80" | "0x80 \<le> x" "x < 0x800" | "0x800 \<le> x" by linarith
    then show ?thesis
    proof cases
      case 1
      then have "Buffer_from_utf8 (c # cs) = of_nat x # Buffer_from_utf8 cs"
        unfolding x_def by (simp add: Let_def)
      then show ?thesis using decode_one [OF 1] ih cx by simp
    next
      case 2
      then have "Buffer_from_utf8 (c # cs)
            = of_nat (0xC0 + x div 64) # of_nat (0x80 + x mod 64) # Buffer_from_utf8 cs"
        unfolding x_def by (simp add: Let_def)
      then show ?thesis using decode_two [OF 2] ih cx by simp
    next
      case 3
      then have "Buffer_from_utf8 (c # cs)
            = of_nat (0xE0 + x div 4096) # of_nat (0x80 + x div 64 mod 64)
              # of_nat (0x80 + x mod 64) # Buffer_from_utf8 cs"
        using False nl unfolding x_def by (simp add: Let_def)
      then show ?thesis using decode_three [OF 3 xlt False nl] ih cx by simp
    qed
  qed
qed

lemma length_Buffer_from_ascii [simp]: "length (Buffer_from_ascii s) = length s"
  by (simp add: Buffer_from_ascii_def)

lemma length_Buffer_from_utf8: "length (Buffer_from_utf8 s) \<le> 3 * length s"
proof (induction "length s" arbitrary: s rule: less_induct)
  case less
  show ?case
  proof (cases s)
    case Nil
    then show ?thesis by simp
  next
    case (Cons c cs)
    have ih: "length (Buffer_from_utf8 cs) \<le> 3 * length cs"
      using less [of cs] Cons by simp
    show ?thesis
    proof (cases "is_high_surrogate (unat c) \<and> \<not> unat c < 0x80 \<and> \<not> unat c < 0x800")
      case False
      then show ?thesis using ih unfolding Cons
        by (auto simp add: Let_def utf8_replacement_def)
    next
      case True
      show ?thesis
      proof (cases cs)
        case Nil
        then show ?thesis using True unfolding Cons
          by (simp add: Let_def utf8_replacement_def)
      next
        case (Cons d ds)
        have ih2: "length (Buffer_from_utf8 ds) \<le> 3 * length ds"
          using less [of ds] Cons \<open>s = c # cs\<close> by simp
        have "Buffer_from_utf8 (c # d # ds) =
              (if is_low_surrogate (unat d)
               then utf8_four (0x10000 + (unat c - 0xD800) * 1024 + (unat d - 0xDC00)) @ Buffer_from_utf8 ds
               else utf8_replacement @ Buffer_from_utf8 (d # ds))"
          using True by (simp add: Let_def)
        then show ?thesis using ih ih2 unfolding \<open>s = c # cs\<close> Cons
          by (simp add: utf8_four_def utf8_replacement_def)
      qed
    qed
  qed
qed

lemma octet_string_ok: "length bs \<le> 3 * MAX_SAFE_INTEGER \<Longrightarrow> agree writeVarOctetString readVarOctetString bs"
proof -
  assume "length bs \<le> 3 * MAX_SAFE_INTEGER"
  then have "uint_size (length bs) \<le> 7" by (rule uint_size_safe)
  then show ?thesis by (intro agree_VarOctetString) simp
qed

text \<open>A string codec is an octet-string codec composed with a text encoding.\<close>

lemma agree_encoded:
  assumes "agree writeVarOctetString readVarOctetString (enc s)" "dec (enc s) = s"
  shows "agree (\<lambda>s. writeVarOctetString (enc s))
               (\<lambda>r. andThen (readVarOctetString r) (\<lambda>(b, r). Inr (dec b, r))) s"
proof -
  from agreeD [OF assms(1)]
  obtain p where p: "\<forall>w. writeVarOctetString (enc s) w = Inr (w @ p)"
    "\<forall>r. readVarOctetString (p @ r) = Inr (enc s, r)"
    by blast
  show ?thesis by (rule agreeI [where bs = p]) (simp_all add: p assms(2))
qed

lemma agree_AsciiString: "ascii_text s \<Longrightarrow> agree writeAsciiString readAsciiString s"
proof -
  assume a: "ascii_text s"
  then have "length (Buffer_from_ascii s) \<le> 3 * MAX_SAFE_INTEGER"
    by (simp add: ascii_text_def safe_length_def)
  then have "agree writeVarOctetString readVarOctetString (Buffer_from_ascii s)"
    by (rule octet_string_ok)
  moreover have "toString_ascii (Buffer_from_ascii s) = s"
    using a by (simp add: ascii_text_def ascii_roundtrip)
  ultimately show ?thesis
    using agree_encoded [of Buffer_from_ascii s toString_ascii]
    by (simp add: writeAsciiString_def [abs_def] readAsciiString_def [abs_def])
qed

lemma agree_Utf8String: "utf8_text s \<Longrightarrow> agree writeUtf8String readUtf8String s"
proof -
  assume a: "utf8_text s"
  then have "length (Buffer_from_utf8 s) \<le> 3 * MAX_SAFE_INTEGER"
    using length_Buffer_from_utf8 [of s] by (simp add: utf8_text_def safe_length_def)
  then have "agree writeVarOctetString readVarOctetString (Buffer_from_utf8 s)"
    by (rule octet_string_ok)
  moreover have "toString_utf8 (Buffer_from_utf8 s) = s"
    using a by (simp add: utf8_text_def utf8_roundtrip)
  ultimately show ?thesis
    using agree_encoded [of Buffer_from_utf8 s toString_utf8]
    by (simp add: writeUtf8String_def [abs_def] readUtf8String_def [abs_def])
qed

text \<open>Withdrawn prefixes are written as ASCII and read as UTF-8.\<close>

lemma agree_Ascii_Utf8: "ascii_text s \<Longrightarrow> agree writeAsciiString readUtf8String s"
proof -
  assume a: "ascii_text s"
  then have "length (Buffer_from_ascii s) \<le> 3 * MAX_SAFE_INTEGER"
    by (simp add: ascii_text_def safe_length_def)
  then have "agree writeVarOctetString readVarOctetString (Buffer_from_ascii s)"
    by (rule octet_string_ok)
  moreover have "toString_utf8 (Buffer_from_ascii s) = s"
    using a by (simp add: ascii_text_def utf8_of_ascii)
  ultimately show ?thesis
    using agree_encoded [of Buffer_from_ascii s toString_utf8]
    by (simp add: writeAsciiString_def [abs_def] readUtf8String_def [abs_def])
qed

subsection \<open>Identifiers\<close>

lemma hex_digit_val:
  assumes "is_lower_hex c"
  shows "\<exists>h<16. hex_val c = Some h \<and> hex_digit h = c"
proof -
  define x where "x = unat c"
  have c: "of_nat x = c" unfolding x_def by (rule unit_of_unat)
  consider "48 \<le> x" "x \<le> 57" | "97 \<le> x" "x \<le> 102"
    using assms unfolding is_lower_hex_def x_def Let_def by blast
  then show ?thesis
  proof cases
    case 1
    then have "hex_val c = Some (x - 48)" "x - 48 < 10" "48 + (x - 48) = x"
      by (simp_all add: hex_val_def x_def [symmetric])
    moreover from this have "hex_digit (x - 48) = c"
      unfolding hex_digit_def using c by (simp only: if_True)
    ultimately show ?thesis by (intro exI [of _ "x - 48"]) simp
  next
    case 2
    then have "hex_val c = Some (x - 87)" "\<not> x - 87 < 10" "87 + (x - 87) = x" "x - 87 < 16"
      by (simp_all add: hex_val_def x_def [symmetric])
    moreover from this have "hex_digit (x - 87) = c"
      unfolding hex_digit_def using c by (simp only: if_False)
    ultimately show ?thesis by (intro exI [of _ "x - 87"]) simp
  qed
qed

lemma hex_octet:
  assumes "h < 16" "l < 16"
  shows "unat (of_nat (16 * h + l) :: byte) div 16 = h" "unat (of_nat (16 * h + l) :: byte) mod 16 = l"
proof -
  have "unat (of_nat (16 * h + l) :: byte) = 16 * h + l"
    using assms by (intro unat_octet) linarith
  then show "unat (of_nat (16 * h + l) :: byte) div 16 = h"
    "unat (of_nat (16 * h + l) :: byte) mod 16 = l"
    using assms by simp_all
qed

lemma hex_decode_encode:
  "list_all is_lower_hex s \<Longrightarrow> even (length s) \<Longrightarrow>
   \<exists>bs. hex_decode s = Some bs \<and> hex_encode bs = s \<and> 2 * length bs = length s"
proof (induction s rule: hex_decode.induct)
  case 1
  then show ?case by simp
next
  case (2 c)
  then show ?case by simp
next
  case (3 a b cs)
  from 3(2) obtain h where h: "h < 16" "hex_val a = Some h" "hex_digit h = a"
    using hex_digit_val [of a] by auto
  from 3(2) obtain l where l: "l < 16" "hex_val b = Some l" "hex_digit l = b"
    using hex_digit_val [of b] by auto
  have "list_all is_lower_hex cs" "even (length cs)" using 3(2,3) by simp_all
  then obtain bs where bs: "hex_decode cs = Some bs" "hex_encode bs = cs" "2 * length bs = length cs"
    using 3(1) [OF h(2) l(2)] by blast
  have "hex_decode (a # b # cs) = Some (of_nat (16 * h + l) # bs)"
    by (simp add: h l bs)
  moreover have "hex_encode (of_nat (16 * h + l) # bs) = a # b # cs"
    by (simp only: hex_encode.simps hex_octet [OF h(1) l(1)] h l bs)
  moreover have "2 * length (of_nat (16 * h + l) # bs) = length (a # b # cs)"
    using bs by simp
  ultimately show ?case by blast
qed

lemma uuid_shape_split:
  assumes "uuid_shape s"
  shows "s = take 8 s @ hyphen # take 4 (drop 9 s) @ hyphen # take 4 (drop 14 s) @ hyphen
             # take 4 (drop 19 s) @ hyphen # drop 24 s"
proof -
  have len: "length s = 36" and h: "s ! 8 = hyphen" "s ! 13 = hyphen" "s ! 18 = hyphen" "s ! 23 = hyphen"
    using assms by (simp_all add: uuid_shape_def)
  have d8: "drop 8 s = hyphen # drop 9 s" using Cons_nth_drop_Suc [of 8 s] len h by simp
  have d13: "drop 13 s = hyphen # drop 14 s" using Cons_nth_drop_Suc [of 13 s] len h by simp
  have d18: "drop 18 s = hyphen # drop 19 s" using Cons_nth_drop_Suc [of 18 s] len h by simp
  have d23: "drop 23 s = hyphen # drop 24 s" using Cons_nth_drop_Suc [of 23 s] len h by simp
  have "s = take 8 s @ drop 8 s" by simp
  also have "drop 8 s = hyphen # take 4 (drop 9 s) @ drop 13 s"
    using append_take_drop_id [of 4 "drop 9 s"] by (simp add: d8)
  also have "drop 13 s = hyphen # take 4 (drop 14 s) @ drop 18 s"
    using append_take_drop_id [of 4 "drop 14 s"] by (simp add: d13)
  also have "drop 18 s = hyphen # take 4 (drop 19 s) @ drop 23 s"
    using append_take_drop_id [of 4 "drop 19 s"] by (simp add: d18)
  also have "drop 23 s = hyphen # drop 24 s" by (rule d23)
  finally show ?thesis .
qed

lemma uuid_regroup:
  assumes "length a = 8" "length b = 4" "length c = 4" "length d = 4"
  shows "(let h = a @ b @ c @ d @ e in
          take 8 h @ x # take 4 (drop 8 h) @ x # take 4 (drop 12 h) @ x # take 4 (drop 16 h) @ x # drop 20 h)
         = a @ x # b @ x # c @ x # d @ x # e"
  using assms by (simp add: Let_def)

lemma uuid_parse_format:
  assumes "canonical_uuid s"
  shows "\<exists>bs. uuid_parse s = Some bs \<and> uuid_format bs = s \<and> length bs = 16"
proof -
  have shape: "uuid_shape s" and hex: "list_all is_lower_hex (uuid_digits s)"
    using assms by (simp_all add: canonical_uuid_def)
  have len: "length s = 36" using shape by (simp add: uuid_shape_def)
  then have "length (uuid_digits s) = 32" by (simp add: uuid_digits_def)
  then obtain bs where bs: "hex_decode (uuid_digits s) = Some bs" "hex_encode bs = uuid_digits s"
    "2 * length bs = 32"
    using hex_decode_encode [OF hex] by auto
  have "uuid_format bs = s"
    unfolding uuid_format_def bs(2) uuid_digits_def
    using uuid_regroup [of "take 8 s" "take 4 (drop 9 s)" "take 4 (drop 14 s)" "take 4 (drop 19 s)"
        "drop 24 s" hyphen] uuid_shape_split [OF shape] len
    by simp
  then show ?thesis using bs shape by (simp add: uuid_parse_def)
qed

lemma agree_Uuid: "canonical_uuid s \<Longrightarrow> agree writeUuid readUuid s"
proof -
  assume "canonical_uuid s"
  then obtain bs where bs: "uuid_parse s = Some bs" "uuid_format bs = s" "length bs = 16"
    using uuid_parse_format by blast
  show ?thesis
  proof (rule agreeI [where bs = bs])
    show "writeUuid s w = Inr (w @ bs)" for w
      by (simp add: writeUuid_def bs writeOctets_def)
    show "readUuid (bs @ r) = Inr (s, r)" for r
      using read_append [of bs r] by (simp add: readUuid_def bs)
  qed
qed

subsection \<open>Counted lists\<close>

lemma counted_parts:
  assumes "safe_length xs" "list_all (agree wr rd) xs"
  shows "\<exists>c bs. (\<forall>w. writeVarUInt (length xs) w = Inr (w @ c))
              \<and> (\<forall>r. readVarUInt (c @ r) = Inr (length xs, r))
              \<and> (\<forall>w. forEach wr xs w = Inr (w @ bs))
              \<and> (\<forall>r. readN rd (length xs) (bs @ r) = Inr (xs, r))"
proof -
  have "uint_size (length xs) \<le> 7"
    using assms(1) by (intro uint_size_safe) (simp add: safe_length_def)
  then have "agree writeVarUInt readVarUInt (length xs)"
    by (intro agree_VarUInt) simp
  from agreeD [OF this] agree_list [OF assms(2)] show ?thesis by blast
qed

lemma list_all_agree:
  "list_all P xs \<Longrightarrow> (\<And>x. P x \<Longrightarrow> agree wr rd x) \<Longrightarrow> list_all (agree wr rd) xs"
  by (induction xs) simp_all

subsection \<open>Route properties\<close>

lemma propMeta_less: "propMeta p < 256"
  by (simp add: propMeta_def Let_def)

lemma propMeta_bits:
  assumes "flags_consistent p"
  shows "(0 < propMeta p AND 0x80) = isWellKnown p"
    "(0 < propMeta p AND 0x40) = isTransitive p"
    "(0 < propMeta p AND 0x20) = isPartial p"
    "(0 < propMeta p AND 0x10) = isUtf8 p"
    "(propMeta p AND 0x10 = 0) = (\<not> isUtf8 p)"
  using assms by (auto simp add: propMeta_def Let_def flags_consistent_def)


lemma agree_Prop:
  assumes "valid_prop p"
  shows "agree writeProp readProp p"
proof -
  define val where "val = (case prop_value p of StringValue s \<Rightarrow> Buffer_from_utf8 s | BufferValue b \<Rightarrow> b)"
  have flags: "flags_consistent p" and id: "prop_id p < 2 ^ 16"
    using assms by (simp_all add: valid_prop_def)
  have "length val \<le> 3 * MAX_SAFE_INTEGER"
  proof (cases "prop_value p")
    case (BufferValue b)
    then show ?thesis using assms by (simp add: val_def valid_prop_def safe_length_def)
  next
    case (StringValue s)
    then show ?thesis
      using assms length_Buffer_from_utf8 [of s]
      by (simp add: val_def valid_prop_def utf8_text_def safe_length_def)
  qed
  from agreeD [OF octet_string_ok [OF this]]
  obtain v where v: "\<forall>w. writeVarOctetString val w = Inr (w @ v)"
    "\<forall>r. readVarOctetString (v @ r) = Inr (val, r)"
    by blast
  from agreeD [OF agree_UInt8 [OF propMeta_less [of p]]]
  obtain m where m: "\<forall>w. writeUInt8 (propMeta p) w = Inr (w @ m)"
    "\<forall>r. readUInt8 (m @ r) = Inr (propMeta p, r)"
    by blast
  from agreeD [OF agree_UInt16 [OF id]]
  obtain i where i: "\<forall>w. writeUInt16 (prop_id p) w = Inr (w @ i)"
    "\<forall>r. readUInt16 (i @ r) = Inr (prop_id p, r)"
    by blast
  have rebuilt: "(if isUtf8 p
               then \<lparr>isWellKnown = isWellKnown p, isTransitive = isTransitive p,
                     isPartial = isPartial p, prop_id = prop_id p,
                     prop_value = StringValue (toString_utf8 val)\<rparr>
               else \<lparr>isWellKnown = isWellKnown p, isTransitive = isTransitive p,
                     isPartial = isPartial p, prop_id = prop_id p,
                     prop_value = BufferValue val\<rparr>) = p"
  proof (cases "prop_value p")
    case (BufferValue b)
    then show ?thesis by (simp add: isUtf8_def val_def)
  next
    case (StringValue s)
    then have "toString_utf8 val = s"
      using assms by (simp add: val_def valid_prop_def utf8_text_def utf8_roundtrip)
    then show ?thesis using StringValue by (simp add: isUtf8_def)
  qed
  show ?thesis
  proof (rule agreeI [where bs = "m @ i @ v"])
    show "writeProp p w = Inr (w @ m @ i @ v)" for w
      by (simp add: writeProp_def val_def [symmetric] m i v)
    show "readProp ((m @ i @ v) @ r) = Inr (p, r)" for r
      using rebuilt
      by (simp add: readProp_def m i v propMeta_bits [OF flags] Let_def split: if_splits)
  qed
qed

subsection \<open>Routes\<close>

lemma agree_Route:
  assumes "valid_route route"
  shows "agree writeRoute readRoute route"
proof -
  have a: "ascii_text (prefix route)" "safe_length (path route)" "list_all ascii_text (path route)"
    "length (auth route) = 32" "safe_length (props route)" "list_all valid_prop (props route)"
    using assms by (simp_all add: valid_route_def)
  from agreeD [OF agree_AsciiString [OF a(1)]]
  obtain p where p: "\<forall>w. writeAsciiString (prefix route) w = Inr (w @ p)"
    "\<forall>r. readAsciiString (p @ r) = Inr (prefix route, r)"
    by blast
  have "list_all (agree writeAsciiString readAsciiString) (path route)"
    using a(3) by (rule list_all_agree) (rule agree_AsciiString)
  from counted_parts [OF a(2) this]
  obtain hc hs where h: "\<forall>w. writeVarUInt (length (path route)) w = Inr (w @ hc)"
    "\<forall>r. readVarUInt (hc @ r) = Inr (length (path route), r)"
    "\<forall>w. forEach writeAsciiString (path route) w = Inr (w @ hs)"
    "\<forall>r. readN readAsciiString (length (path route)) (hs @ r) = Inr (path route, r)"
    by blast
  have "list_all (agree writeProp readProp) (props route)"
    using a(6) by (rule list_all_agree) (rule agree_Prop)
  from counted_parts [OF a(5) this]
  obtain qc qs where q: "\<forall>w. writeVarUInt (length (props route)) w = Inr (w @ qc)"
    "\<forall>r. readVarUInt (qc @ r) = Inr (length (props route), r)"
    "\<forall>w. forEach writeProp (props route) w = Inr (w @ qs)"
    "\<forall>r. readN readProp (length (props route)) (qs @ r) = Inr (props route, r)"
    by blast
  have au: "read 32 (auth route @ r) = Inr (auth route, r)" for r
    using read_append [of "auth route" r] a(4) by simp
  show ?thesis
  proof (rule agreeI [where bs = "p @ hc @ hs @ auth route @ qc @ qs"])
    show "writeRoute route w = Inr (w @ p @ hc @ hs @ auth route @ qc @ qs)" for w
      by (simp add: writeRoute_def p h(1,3) a(4) writeOctets_def q(1,3))
    show "readRoute ((p @ hc @ hs @ auth route @ qc @ qs) @ r) = Inr (route, r)" for r
      by (simp add: readRoute_def p h(2,4) au q(2,4))
  qed
qed

subsection \<open>Payloads\<close>

lemma update_payload_roundtrip:
  assumes "valid_update u"
  shows "\<exists>id16 rest. length id16 = 16
           \<and> updatePayload u = Inr (id16 @ octets_of_uint 4 (currentEpochIndex u)
                 @ octets_of_uint 4 (fromEpochIndex u) @ octets_of_uint 4 (toEpochIndex u) @ rest)
           \<and> parseUpdatePayload (id16 @ octets_of_uint 4 (currentEpochIndex u)
                 @ octets_of_uint 4 (fromEpochIndex u) @ octets_of_uint 4 (toEpochIndex u) @ rest)
               = Inr u"
proof -
  have a: "canonical_uuid (routingTableId u)"
    "currentEpochIndex u < 256 ^ 4" "fromEpochIndex u < 256 ^ 4" "toEpochIndex u < 256 ^ 4"
    "safe_length (newRoutes u)" "list_all valid_route (newRoutes u)"
    "safe_length (withdrawnRoutes u)" "list_all ascii_text (withdrawnRoutes u)"
    using assms by (simp_all add: valid_update_def)
  obtain id16 where id16: "uuid_parse (routingTableId u) = Some id16"
    "uuid_format id16 = routingTableId u" "length id16 = 16"
    using uuid_parse_format [OF a(1)] by blast
  have rid: "readUuid (id16 @ r) = Inr (routingTableId u, r)" for r
    using read_append [of id16 r] by (simp add: readUuid_def id16)
  have "list_all (agree writeRoute readRoute) (newRoutes u)"
    using a(6) by (rule list_all_agree) (rule agree_Route)
  from counted_parts [OF a(5) this]
  obtain nc ns where n: "\<forall>w. writeVarUInt (length (newRoutes u)) w = Inr (w @ nc)"
    "\<forall>r. readVarUInt (nc @ r) = Inr (length (newRoutes u), r)"
    "\<forall>w. forEach writeRoute (newRoutes u) w = Inr (w @ ns)"
    "\<forall>r. readN readRoute (length (newRoutes u)) (ns @ r) = Inr (newRoutes u, r)"
    by blast
  have "list_all (agree writeAsciiString readUtf8String) (withdrawnRoutes u)"
    using a(8) by (rule list_all_agree) (rule agree_Ascii_Utf8)
  from counted_parts [OF a(7) this]
  obtain wc ws where w: "\<forall>w. writeVarUInt (length (withdrawnRoutes u)) w = Inr (w @ wc)"
    "\<forall>r. readVarUInt (wc @ r) = Inr (length (withdrawnRoutes u), r)"
    "\<forall>w. forEach writeAsciiString (withdrawnRoutes u) w = Inr (w @ ws)"
    "\<forall>r. readN readUtf8String (length (withdrawnRoutes u)) (ws @ r) = Inr (withdrawnRoutes u, r)"
    by blast
  have last: "readN readUtf8String (length (withdrawnRoutes u)) ws = Inr (withdrawnRoutes u, [])"
    using w(4) [rule_format, of "[]"] by simp
  have "updatePayload u = Inr (id16 @ octets_of_uint 4 (currentEpochIndex u)
          @ octets_of_uint 4 (fromEpochIndex u) @ octets_of_uint 4 (toEpochIndex u)
          @ nc @ ns @ wc @ ws)"
    using a(2-4)
    by (simp add: updatePayload_def writeUuid_def id16 writeOctets_def writeUInt32_def
        writeUInt_def n(1,3) w(1,3))
  moreover have "parseUpdatePayload (id16 @ octets_of_uint 4 (currentEpochIndex u)
          @ octets_of_uint 4 (fromEpochIndex u) @ octets_of_uint 4 (toEpochIndex u)
          @ nc @ ns @ wc @ ws) = Inr u"
    by (simp add: parseUpdatePayload_def rid readUInt32_def readUInt_octets [OF a(2)]
        readUInt_octets [OF a(3)] readUInt_octets [OF a(4)] n(2,4) w(2) last)
  ultimately show ?thesis using id16(3) by blast
qed

lemma control_payload_roundtrip:
  assumes "valid_control c"
  shows "\<exists>d. controlPayload c = Inr d \<and> parseControlPayload d = Inr c"
proof -
  have a: "ascii_text (speaker c)" "canonical_uuid (lastKnownRoutingTableId c)"
    "lastKnownEpoch c < 256 ^ 4" "safe_length (features c)" "list_all utf8_text (features c)"
    using assms by (simp_all add: valid_control_def)
  have "length (Buffer_from_ascii (speaker c)) \<le> 3 * MAX_SAFE_INTEGER"
    using a(1) by (simp add: ascii_text_def safe_length_def)
  from agreeD [OF octet_string_ok [OF this]]
  obtain s where s: "\<forall>w. writeVarOctetString (Buffer_from_ascii (speaker c)) w = Inr (w @ s)"
    "\<forall>r. readVarOctetString (s @ r) = Inr (Buffer_from_ascii (speaker c), r)"
    by blast
  have sp: "toString_ascii (Buffer_from_ascii (speaker c)) = speaker c"
    using a(1) by (simp add: ascii_text_def ascii_roundtrip)
  obtain id16 where id16: "uuid_parse (lastKnownRoutingTableId c) = Some id16"
    "uuid_format id16 = lastKnownRoutingTableId c" "length id16 = 16"
    using uuid_parse_format [OF a(2)] by blast
  have rid: "readUuid (id16 @ r) = Inr (lastKnownRoutingTableId c, r)" for r
    using read_append [of id16 r] by (simp add: readUuid_def id16)
  have "list_all (agree writeUtf8String readUtf8String) (features c)"
    using a(5) by (rule list_all_agree) (rule agree_Utf8String)
  from counted_parts [OF a(4) this]
  obtain fc fs where f: "\<forall>w. writeVarUInt (length (features c)) w = Inr (w @ fc)"
    "\<forall>r. readVarUInt (fc @ r) = Inr (length (features c), r)"
    "\<forall>w. forEach writeUtf8String (features c) w = Inr (w @ fs)"
    "\<forall>r. readN readUtf8String (length (features c)) (fs @ r) = Inr (features c, r)"
    by blast
  have last: "readN readUtf8String (length (features c)) fs = Inr (features c, [])"
    using f(4) [rule_format, of "[]"] by simp
  have "controlPayload c = Inr (s @ id16 @ octets_of_uint 4 (lastKnownEpoch c) @ fc @ fs)"
    using a(3) s(1) [rule_format, of "[]"]
    by (simp add: controlPayload_def writeUuid_def id16 writeOctets_def writeUInt32_def
        writeUInt_def f(1,3))
  moreover have "parseControlPayload (s @ id16 @ octets_of_uint 4 (lastKnownEpoch c) @ fc @ fs) = Inr c"
    by (simp add: parseControlPayload_def s(2) sp rid readUInt32_def readUInt_octets [OF a(3)]
        f(2) last)
  ultimately show ?thesis by blast
qed

subsection \<open>Requests through the envelope\<close>

lemma control_through_envelope:
  assumes "valid_control c"
    and "envelope_roundtrips ser deser CCP_CONTROL_DESTINATION encoded_at"
    and "decoded_at \<le> encoded_at + PEER_PROTOCOL_EXPIRY_DURATION"
  shows "\<exists>d. controlPayload c = Inr d
           \<and> serializeCcpRouteControlRequest ser encoded_at c
               = Inr (ser (peer_request CCP_CONTROL_DESTINATION encoded_at d))
           \<and> deserializeCcpRouteControlRequest deser decoded_at
                (ser (peer_request CCP_CONTROL_DESTINATION encoded_at d)) = Inr c"
proof -
  obtain d where d: "controlPayload c = Inr d" "parseControlPayload d = Inr c"
    using control_payload_roundtrip [OF assms(1)] by blast
  have env: "deser (ser (peer_request CCP_CONTROL_DESTINATION encoded_at d))
             = Inr (peer_request CCP_CONTROL_DESTINATION encoded_at d)"
    using assms(2) by (simp add: envelope_roundtrips_def)
  have "serializeCcpRouteControlRequest ser encoded_at c
        = Inr (ser (peer_request CCP_CONTROL_DESTINATION encoded_at d))"
    by (simp add: serializeCcpRouteControlRequest_def d(1) peer_request_def)
  moreover have "deserializeCcpRouteControlRequest deser decoded_at
                   (ser (peer_request CCP_CONTROL_DESTINATION encoded_at d)) = Inr c"
    using assms(3) d(2)
    by (simp add: deserializeCcpRouteControlRequest_def env)
       (simp add: peer_request_def)
  ultimately show ?thesis using d(1) by blast
qed

lemma update_through_envelope:
  assumes "valid_update u"
    and "envelope_roundtrips ser deser CCP_UPDATE_DESTINATION encoded_at"
    and "decoded_at \<le> encoded_at + PEER_PROTOCOL_EXPIRY_DURATION"
  shows "\<exists>id16 rest. length id16 = 16
           \<and> serializeCcpRouteUpdateRequest ser encoded_at u
               = Inr (ser (peer_request CCP_UPDATE_DESTINATION encoded_at
                    (id16 @ octets_of_uint 4 (currentEpochIndex u)
                     @ octets_of_uint 4 (fromEpochIndex u)
                     @ octets_of_uint 4 (toEpochIndex u) @ rest)))
           \<and> deserializeCcpRouteUpdateRequest deser decoded_at
                (ser (peer_request CCP_UPDATE_DESTINATION encoded_at
                    (id16 @ octets_of_uint 4 (currentEpochIndex u)
                     @ octets_of_uint 4 (fromEpochIndex u)
                     @ octets_of_uint 4 (toEpochIndex u) @ rest))) = Inr u"
proof -
  obtain id16 rest where d: "length id16 = 16"
    "updatePayload u = Inr (id16 @ octets_of_uint 4 (currentEpochIndex u)
       @ octets_of_uint 4 (fromEpochIndex u) @ octets_of_uint 4 (toEpochIndex u) @ rest)"
    "parseUpdatePayload (id16 @ octets_of_uint 4 (currentEpochIndex u)
       @ octets_of_uint 4 (fromEpochIndex u) @ octets_of_uint 4 (toEpochIndex u) @ rest) = Inr u"
    using update_payload_roundtrip [OF assms(1)] by blast
  define p where "p = id16 @ octets_of_uint 4 (currentEpochIndex u)
       @ octets_of_uint 4 (fromEpochIndex u) @ octets_of_uint 4 (toEpochIndex u) @ rest"
  have env: "deser (ser (peer_request CCP_UPDATE_DESTINATION encoded_at p))
             = Inr (peer_request CCP_UPDATE_DESTINATION encoded_at p)"
    using assms(2) by (simp add: envelope_roundtrips_def)
  have "serializeCcpRouteUpdateRequest ser encoded_at u
        = Inr (ser (peer_request CCP_UPDATE_DESTINATION encoded_at p))"
    using d(2) by (simp add: serializeCcpRouteUpdateRequest_def peer_request_def p_def)
  moreover have "deserializeCcpRouteUpdateRequest deser decoded_at
                   (ser (peer_request CCP_UPDATE_DESTINATION encoded_at p)) = Inr u"
    using assms(3) d(3)
    by (simp add: deserializeCcpRouteUpdateRequest_def env p_def [symmetric])
       (simp add: peer_request_def)
  ultimately show ?thesis using d(1) unfolding p_def by blast
qed

subsection \<open>The examples\<close>

lemma uint_size_small: "v < 256 \<Longrightarrow> uint_size v = 1"
  by (subst uint_size.simps) simp

lemma js_simps [simp]: "js [] = []" "js (c # cs) = of_nat (of_char c) # js cs"
  by (simp_all add: js_def)

lemma valid_example_control: "valid_control example_control"
  by (simp add: valid_control_def example_control_def ascii_text_def is_ascii_def safe_length_def
      MAX_SAFE_INTEGER_def canonical_uuid_def uuid_shape_def uuid_digits_def zero_uuid_def
      hyphen_def is_lower_hex_def)

lemma valid_example_update: "valid_update example_update"
  by (simp add: valid_update_def example_update_def example_route_def example_route2_def
      valid_route_def valid_prop_def flags_consistent_def ascii_text_def utf8_text_def
      is_ascii_def is_high_surrogate_def is_low_surrogate_def safe_length_def
      MAX_SAFE_INTEGER_def canonical_uuid_def uuid_shape_def uuid_digits_def
      hyphen_def is_lower_hex_def)

lemma read_Cons: "read (Suc n) (b # r) = andThen (read n r) (\<lambda>(bs, r). Inr (b # bs, r))"
  by (simp add: read_def)

lemma read_0: "read 0 r = Inr ([], r)"
  by (simp add: read_def)

lemma readUInt8_Cons: "readUInt8 (b # r) = Inr (unat b, r)"
  by (simp add: readUInt8_def readUInt_def read_def uint_of_octets_def)

lemma short_octet_string:
  assumes "length bs < 128"
  shows "readVarOctetString (of_nat (length bs) # bs @ r) = Inr (bs, r)"
proof -
  have "unat (of_nat (length bs) :: byte) = length bs"
    using assms by (intro unat_octet) simp
  then show ?thesis
    using assms read_append [of bs r]
    by (simp add: readVarOctetString_def readLengthPrefix_def readUInt8_Cons)
qed

lemma sample_prepare_roundtrip:
  assumes "0 \<le> expiresAt p" "expiresAt p < 2 ^ 63" "length (executionCondition p) = 32"
    and "is_ascii (destination p)" "length (destination p) < 128"
    and "is_ascii (amount p)" "length (amount p) < 128"
  shows "sample_deserializeIlpPrepare (sample_serializeIlpPrepare p) = Inr p"
proof -
  define e where "e = nat (expiresAt p)"
  have e: "e < 256 ^ 8" "int e = expiresAt p"
    using assms(1,2) by (simp_all add: e_def)
  have cond: "read 32 (executionCondition p @ r) = Inr (executionCondition p, r)" for r
    using read_append [of "executionCondition p" r] unfolding assms(3) .
  have d: "readVarOctetString (of_nat (length (destination p)) # Buffer_from_ascii (destination p) @ r)
           = Inr (Buffer_from_ascii (destination p), r)" for r
    using short_octet_string [of "Buffer_from_ascii (destination p)" r] assms(5) by simp
  have a: "readVarOctetString (of_nat (length (amount p)) # Buffer_from_ascii (amount p) @ r)
           = Inr (Buffer_from_ascii (amount p), r)" for r
    using short_octet_string [of "Buffer_from_ascii (amount p)" r] assms(7) by simp
  show ?thesis
    using readUInt_octets [OF e(1)] e(2) ascii_roundtrip [OF assms(4)] ascii_roundtrip [OF assms(6)]
    by (simp add: sample_deserializeIlpPrepare_def sample_serializeIlpPrepare_def
        readUInt8_Cons e_def [symmetric] cond d a)
qed

lemma length_condition: "length PEER_PROTOCOL_CONDITION = 32"
  by (simp add: PEER_PROTOCOL_CONDITION_def)

lemma ascii_destinations:
  "is_ascii CCP_CONTROL_DESTINATION" "length CCP_CONTROL_DESTINATION = 18"
  "is_ascii CCP_UPDATE_DESTINATION" "length CCP_UPDATE_DESTINATION = 17"
  by (simp_all add: CCP_CONTROL_DESTINATION_def CCP_UPDATE_DESTINATION_def is_ascii_def)

lemma sample_envelope_roundtrips:
  assumes "0 \<le> now" "now < 2 ^ 60" "is_ascii dest" "length dest < 128"
  shows "envelope_roundtrips sample_serializeIlpPrepare sample_deserializeIlpPrepare dest now"
  unfolding envelope_roundtrips_def
proof
  fix payload
  show "sample_deserializeIlpPrepare (sample_serializeIlpPrepare (peer_request dest now payload))
        = Inr (peer_request dest now payload)"
    using assms
    by (intro sample_prepare_roundtrip)
       (simp_all add: peer_request_def PEER_PROTOCOL_EXPIRY_DURATION_def length_condition is_ascii_def)
qed

lemma sample_fulfill_roundtrip:
  "length (fulfillment f) = 32 \<Longrightarrow> sample_deserializeIlpFulfill (sample_serializeIlpFulfill f) = Inr f"
  using read_append [of "fulfillment f" "fulfill_data f"]
  by (simp add: sample_deserializeIlpFulfill_def sample_serializeIlpFulfill_def readUInt8_Cons)

subsection \<open>Writers only append; a failing item fails the loop\<close>

lemma writeUInt_Inr: "writeUInt v n w = Inr w' \<Longrightarrow> w' = w @ octets_of_uint n v"
  by (simp add: writeUInt_def split: if_splits)

lemma andThen_Inr_iff: "andThen m f = Inr y \<longleftrightarrow> (\<exists>x. m = Inr x \<and> f x = Inr y)"
  by (cases m) simp_all

lemma writeLengthPrefix_Inr:
  assumes "writeLengthPrefix n w = Inr w'"
  shows "\<exists>x. w' = w @ x"
proof (cases "n < 128")
  case True
  then have "writeUInt n 1 w = Inr w'"
    using assms by (simp add: writeLengthPrefix_def writeUInt8_def)
  from writeUInt_Inr [OF this] show ?thesis by blast
next
  case False
  then obtain w1 where "writeUInt (128 + uint_size n) 1 w = Inr w1"
    "writeUInt n (uint_size n) w1 = Inr w'"
    using assms by (simp add: writeLengthPrefix_def writeUInt8_def andThen_Inr_iff) blast
  from writeUInt_Inr [OF this(1)] writeUInt_Inr [OF this(2)] show ?thesis by simp
qed

lemma writeVarOctetString_Inr:
  assumes "writeVarOctetString bs w = Inr w'"
  shows "\<exists>x. w' = w @ x"
proof -
  obtain w1 where "writeLengthPrefix (length bs) w = Inr w1" "w' = w1 @ bs"
    using assms by (simp add: writeVarOctetString_def writeOctets_def andThen_Inr_iff) blast
  from writeLengthPrefix_Inr [OF this(1)] this(2) show ?thesis by auto
qed

lemma octets_of_uint_1: "octets_of_uint 1 v = [of_nat (v mod 256)]"
  unfolding One_nat_def by (simp only: octets_of_uint.simps append_Nil)






lemma length_js [simp]: "length (js s) = length s"
  by (simp add: js_def)

lemma propMeta_cases:
  "propMeta p \<in> {0x00, 0x10, 0x40, 0x50, 0x60, 0x70, 0x80, 0x90}"
  by (simp add: propMeta_def Let_def)

lemma writeProp_starts_with_meta:
  assumes "writeProp p w = Inr w'"
  shows "\<exists>rest. w' = w @ of_nat (propMeta p) # rest"
proof -
  have m: "writeUInt8 (propMeta p) w = Inr (w @ [of_nat (propMeta p)])"
    using propMeta_less [of p] by (simp add: writeUInt8_def writeUInt_def octets_of_uint_1)
  obtain w2 where "writeUInt (prop_id p) 2 (w @ [of_nat (propMeta p)]) = Inr w2"
    "writeVarOctetString
       (case prop_value p of StringValue s \<Rightarrow> Buffer_from_utf8 s | BufferValue b \<Rightarrow> b) w2
     = Inr w'"
    using assms by (simp add: writeProp_def m writeUInt16_def andThen_Inr_iff) blast
  from writeUInt_Inr [OF this(1)] writeVarOctetString_Inr [OF this(2)]
  show ?thesis by auto
qed


subsection \<open>Evaluations at the examples\<close>






lemma octets_of_uint_4:
  "octets_of_uint 4 v = [of_nat (v div 16777216 mod 256), of_nat (v div 65536 mod 256),
                         of_nat (v div 256 mod 256), of_nat (v mod 256)]"
proof -
  have "(4 :: nat) = Suc (Suc (Suc (Suc 0)))" by simp
  then show ?thesis
    by (simp only: octets_of_uint.simps append_Nil append_Cons div_mult2_eq [symmetric])
       simp
qed

lemma replicate_16:
  "replicate 16 x = [x, x, x, x, x, x, x, x, x, x, x, x, x, x, x, x]"
  by (simp add: numeral_eq_Suc)

lemma example_control_payload:
  "controlPayload example_control
   = Inr ([7, 0x67, 0x2E, 0x61, 0x6C, 0x69, 0x63, 0x65] @ replicate 16 0 @ [0, 0, 0, 0, 1, 0])"
  by (simp add: controlPayload_def example_control_def zero_uuid_def writeVarOctetString_def
      Buffer_from_ascii_def writeLengthPrefix_def writeUInt8_def writeUInt32_def writeUInt_def
      octets_of_uint_1 octets_of_uint_4 writeOctets_def writeUuid_def uuid_parse_def
      uuid_shape_def uuid_digits_def hyphen_def hex_val_def writeVarUInt_def uint_size_small replicate_16)

section \<open>The claims\<close>

text \<open>
  C5. A valid route control request survives encoding and decoding: when the envelope
  codec gives back the envelope it serialised and decoding happens no later than the
  expiry set at encoding, \<open>deserializeCcpRouteControlRequest\<close> applied to the output of
  \<open>serializeCcpRouteControlRequest\<close> returns the request with its speaker, identifier,
  epoch and features in order. The example with speaker g.alice, the all-zero
  identifier, epoch 0 and no features is the instance below.
\<close>

theorem control_request_roundtrip:
  assumes "valid_control c"
    and "envelope_roundtrips ser deser CCP_CONTROL_DESTINATION encoded_at"
    and "decoded_at \<le> encoded_at + PEER_PROTOCOL_EXPIRY_DURATION"
  shows "\<exists>buf. serializeCcpRouteControlRequest ser encoded_at c = Inr buf
             \<and> deserializeCcpRouteControlRequest deser decoded_at buf = Inr c"
  using control_through_envelope [OF assms] by blast

theorem control_request_roundtrip_witness:
  "valid_control example_control
   \<and> envelope_roundtrips sample_serializeIlpPrepare sample_deserializeIlpPrepare
        CCP_CONTROL_DESTINATION 1000
   \<and> (30000 :: int) \<le> 1000 + PEER_PROTOCOL_EXPIRY_DURATION
   \<and> (\<exists>buf. serializeCcpRouteControlRequest sample_serializeIlpPrepare 1000
                \<lparr>speaker = js ''g.alice'',
                 lastKnownRoutingTableId = js ''00000000-0000-0000-0000-000000000000'',
                 lastKnownEpoch = 0, features = []\<rparr> = Inr buf
           \<and> deserializeCcpRouteControlRequest sample_deserializeIlpPrepare 30000 buf
               = Inr \<lparr>speaker = js ''g.alice'',
                      lastKnownRoutingTableId = js ''00000000-0000-0000-0000-000000000000'',
                      lastKnownEpoch = 0, features = []\<rparr>)"
proof -
  have v: "valid_control example_control" by (rule valid_example_control)
  have e: "envelope_roundtrips sample_serializeIlpPrepare sample_deserializeIlpPrepare
             CCP_CONTROL_DESTINATION 1000"
    by (rule sample_envelope_roundtrips) (simp_all add: ascii_destinations)
  have t: "(30000 :: int) \<le> 1000 + PEER_PROTOCOL_EXPIRY_DURATION"
    by (simp add: PEER_PROTOCOL_EXPIRY_DURATION_def)
  show ?thesis
    using v e t control_request_roundtrip [OF v e t]
    unfolding example_control_def zero_uuid_def by blast
qed

text \<open>
  C1. A valid route update request survives encoding and decoding: under the same two
  assumptions, decoding the encoded request returns it unchanged, with the identifier,
  the three epoch indices, every route (prefix, path, auth, properties with their flags,
  id and value, in order) and the withdrawn prefixes in order.
\<close>

theorem update_request_roundtrip:
  assumes "valid_update u"
    and "envelope_roundtrips ser deser CCP_UPDATE_DESTINATION encoded_at"
    and "decoded_at \<le> encoded_at + PEER_PROTOCOL_EXPIRY_DURATION"
  shows "\<exists>buf. serializeCcpRouteUpdateRequest ser encoded_at u = Inr buf
             \<and> deserializeCcpRouteUpdateRequest deser decoded_at buf = Inr u"
  using update_through_envelope [OF assms] by blast

theorem update_request_roundtrip_witness:
  "valid_update example_update
   \<and> envelope_roundtrips sample_serializeIlpPrepare sample_deserializeIlpPrepare
        CCP_UPDATE_DESTINATION 1000
   \<and> (61000 :: int) \<le> 1000 + PEER_PROTOCOL_EXPIRY_DURATION
   \<and> (\<exists>buf. serializeCcpRouteUpdateRequest sample_serializeIlpPrepare 1000 example_update
                = Inr buf
           \<and> deserializeCcpRouteUpdateRequest sample_deserializeIlpPrepare 61000 buf
               = Inr example_update)"
proof -
  have v: "valid_update example_update" by (rule valid_example_update)
  have e: "envelope_roundtrips sample_serializeIlpPrepare sample_deserializeIlpPrepare
             CCP_UPDATE_DESTINATION 1000"
    by (rule sample_envelope_roundtrips) (simp_all add: ascii_destinations)
  have t: "(61000 :: int) \<le> 1000 + PEER_PROTOCOL_EXPIRY_DURATION"
    by (simp add: PEER_PROTOCOL_EXPIRY_DURATION_def)
  show ?thesis
    using v e t update_request_roundtrip [OF v e t] by blast
qed

text \<open>
  C9. The codec puts no condition on how the three epoch indices relate. Take a valid
  update request and replace its indices by any three unsigned 32-bit values, in any
  order of magnitude: encoding succeeds, the payload carries them after the 16 octets of
  the identifier as three big-endian 32-bit integers in the order current, from, to, and
  decoding returns the same three values.
\<close>

theorem epoch_indices_not_related:
  assumes "valid_update u" and "c < 2 ^ 32" "f < 2 ^ 32" "t < 2 ^ 32"
    and "envelope_roundtrips ser deser CCP_UPDATE_DESTINATION encoded_at"
    and "decoded_at \<le> encoded_at + PEER_PROTOCOL_EXPIRY_DURATION"
  shows "\<exists>id16 rest. length id16 = 16
           \<and> serializeCcpRouteUpdateRequest ser encoded_at
                (u\<lparr>currentEpochIndex := c, fromEpochIndex := f, toEpochIndex := t\<rparr>)
               = Inr (ser (peer_request CCP_UPDATE_DESTINATION encoded_at
                    (id16 @ octets_of_uint 4 c @ octets_of_uint 4 f @ octets_of_uint 4 t @ rest)))
           \<and> deserializeCcpRouteUpdateRequest deser decoded_at
                (ser (peer_request CCP_UPDATE_DESTINATION encoded_at
                    (id16 @ octets_of_uint 4 c @ octets_of_uint 4 f @ octets_of_uint 4 t @ rest)))
               = Inr (u\<lparr>currentEpochIndex := c, fromEpochIndex := f, toEpochIndex := t\<rparr>)"
proof -
  have "valid_update (u\<lparr>currentEpochIndex := c, fromEpochIndex := f, toEpochIndex := t\<rparr>)"
    using assms(1-4) by (simp add: valid_update_def)
  from update_through_envelope [OF this assms(5,6)] show ?thesis by simp
qed

theorem epoch_indices_not_related_witness:
  "valid_update example_update \<and> (9 :: nat) > 2
   \<and> (\<exists>id16 rest. length id16 = 16
         \<and> serializeCcpRouteUpdateRequest sample_serializeIlpPrepare 1000
              (example_update\<lparr>currentEpochIndex := 5, fromEpochIndex := 9, toEpochIndex := 2\<rparr>)
             = Inr (sample_serializeIlpPrepare (peer_request CCP_UPDATE_DESTINATION 1000
                  (id16 @ octets_of_uint 4 5 @ octets_of_uint 4 9 @ octets_of_uint 4 2 @ rest)))
         \<and> deserializeCcpRouteUpdateRequest sample_deserializeIlpPrepare 2000
              (sample_serializeIlpPrepare (peer_request CCP_UPDATE_DESTINATION 1000
                  (id16 @ octets_of_uint 4 5 @ octets_of_uint 4 9 @ octets_of_uint 4 2 @ rest)))
             = Inr (example_update\<lparr>currentEpochIndex := 5, fromEpochIndex := 9, toEpochIndex := 2\<rparr>))"
proof -
  have v: "valid_update example_update" by (rule valid_example_update)
  have e: "envelope_roundtrips sample_serializeIlpPrepare sample_deserializeIlpPrepare
             CCP_UPDATE_DESTINATION 1000"
    by (rule sample_envelope_roundtrips) (simp_all add: ascii_destinations)
  have t: "(2000 :: int) \<le> 1000 + PEER_PROTOCOL_EXPIRY_DURATION"
    by (simp add: PEER_PROTOCOL_EXPIRY_DURATION_def)
  have r: "(5 :: nat) < 2 ^ 32" "(9 :: nat) < 2 ^ 32" "(2 :: nat) < 2 ^ 32" by simp_all
  show ?thesis
    using v epoch_indices_not_related [OF v r e t] by simp
qed

text \<open>
  C10. Neither request decoder looks at the amount of the envelope: two buffers that
  unwrap to envelopes equal except for the amount get the same result, record or error,
  from \<open>deserializeCcpRouteControlRequest\<close>, and likewise from
  \<open>deserializeCcpRouteUpdateRequest\<close>.
\<close>

theorem amount_not_inspected:
  assumes "deser buf = Inr ilp" and "deser buf' = Inr (ilp\<lparr>amount := a\<rparr>)"
  shows "deserializeCcpRouteControlRequest deser now buf'
           = deserializeCcpRouteControlRequest deser now buf
         \<and> deserializeCcpRouteUpdateRequest deser now buf'
           = deserializeCcpRouteUpdateRequest deser now buf"
  using assms
  by (simp add: deserializeCcpRouteControlRequest_def deserializeCcpRouteUpdateRequest_def
      del: js_simps)

theorem amount_not_inspected_witness:
  "deserializeCcpRouteControlRequest sample_deserializeIlpPrepare 2000
     (sample_serializeIlpPrepare
        \<lparr>amount = js ''725'', destination = js ''peer.route.control'',
         executionCondition = PEER_PROTOCOL_CONDITION, expiresAt = 61000,
         data = [7, 0x67, 0x2E, 0x61, 0x6C, 0x69, 0x63, 0x65] @ replicate 16 0 @ [0, 0, 0, 0, 1, 0]\<rparr>)
     = Inr example_control
   \<and> deserializeCcpRouteControlRequest sample_deserializeIlpPrepare 2000
     (sample_serializeIlpPrepare
        \<lparr>amount = js ''0'', destination = js ''peer.route.control'',
         executionCondition = PEER_PROTOCOL_CONDITION, expiresAt = 61000,
         data = [7, 0x67, 0x2E, 0x61, 0x6C, 0x69, 0x63, 0x65] @ replicate 16 0 @ [0, 0, 0, 0, 1, 0]\<rparr>)
     = Inr example_control
   \<and> (\<exists>payload. updatePayload example_update = Inr payload
        \<and> deserializeCcpRouteUpdateRequest sample_deserializeIlpPrepare 2000
            (sample_serializeIlpPrepare
               \<lparr>amount = js ''725'', destination = js ''peer.route.update'',
                executionCondition = PEER_PROTOCOL_CONDITION, expiresAt = 61000,
                data = payload\<rparr>)
            = Inr example_update
        \<and> deserializeCcpRouteUpdateRequest sample_deserializeIlpPrepare 2000
            (sample_serializeIlpPrepare
               \<lparr>amount = js ''0'', destination = js ''peer.route.update'',
                executionCondition = PEER_PROTOCOL_CONDITION, expiresAt = 61000,
                data = payload\<rparr>)
            = Inr example_update)"
proof -
  define c where "c = [7, 0x67, 0x2E, 0x61, 0x6C, 0x69, 0x63, 0x65] @ replicate 16 (0 :: byte)
                      @ [0, 0, 0, 0, 1, 0]"
  let ?p = "\<lambda>a dest d. \<lparr>amount = a, destination = dest,
               executionCondition = PEER_PROTOCOL_CONDITION, expiresAt = 61000, data = d\<rparr>"
  have a: "is_ascii (js ''0'')" "is_ascii (js ''725'')" "is_ascii (js ''peer.route.control'')"
    "is_ascii (js ''peer.route.update'')"
    by (simp_all add: is_ascii_def)
  have rt: "sample_deserializeIlpPrepare (sample_serializeIlpPrepare (?p am dest d))
            = Inr (?p am dest d)"
    if "is_ascii am" "length am < 128" "is_ascii dest" "length dest < 128" for am dest d
    using that by (intro sample_prepare_roundtrip) (simp_all add: length_condition)
  have pc: "parseControlPayload c = Inr example_control"
    using control_payload_roundtrip [OF valid_example_control] example_control_payload
    unfolding c_def by auto
  obtain u where u: "updatePayload example_update = Inr u"
    "parseUpdatePayload u = Inr example_update"
    using update_payload_roundtrip [OF valid_example_update] by blast
  have c0: "deserializeCcpRouteControlRequest sample_deserializeIlpPrepare 2000
              (sample_serializeIlpPrepare (?p (js ''0'') (js ''peer.route.control'') c))
            = Inr example_control"
    using rt [of "js ''0''" "js ''peer.route.control''" c] a pc
    by (simp add: deserializeCcpRouteControlRequest_def CCP_CONTROL_DESTINATION_def
        del: js_simps)
  have u0: "deserializeCcpRouteUpdateRequest sample_deserializeIlpPrepare 2000
              (sample_serializeIlpPrepare (?p (js ''0'') (js ''peer.route.update'') u))
            = Inr example_update"
    using rt [of "js ''0''" "js ''peer.route.update''" u] a u(2)
    by (simp add: deserializeCcpRouteUpdateRequest_def CCP_UPDATE_DESTINATION_def
        del: js_simps)
  have c1: "deserializeCcpRouteControlRequest sample_deserializeIlpPrepare 2000
              (sample_serializeIlpPrepare (?p (js ''725'') (js ''peer.route.control'') c))
            = Inr example_control"
    using amount_not_inspected [of sample_deserializeIlpPrepare
        "sample_serializeIlpPrepare (?p (js ''0'') (js ''peer.route.control'') c)"
        "?p (js ''0'') (js ''peer.route.control'') c"
        "sample_serializeIlpPrepare (?p (js ''725'') (js ''peer.route.control'') c)"
        "js ''725''" 2000]
      rt [of "js ''0''" "js ''peer.route.control''" c]
      rt [of "js ''725''" "js ''peer.route.control''" c] a c0
    by (simp del: js_simps)
  have u1: "deserializeCcpRouteUpdateRequest sample_deserializeIlpPrepare 2000
              (sample_serializeIlpPrepare (?p (js ''725'') (js ''peer.route.update'') u))
            = Inr example_update"
    using amount_not_inspected [of sample_deserializeIlpPrepare
        "sample_serializeIlpPrepare (?p (js ''0'') (js ''peer.route.update'') u)"
        "?p (js ''0'') (js ''peer.route.update'') u"
        "sample_serializeIlpPrepare (?p (js ''725'') (js ''peer.route.update'') u)"
        "js ''725''" 2000]
      rt [of "js ''0''" "js ''peer.route.update''" u]
      rt [of "js ''725''" "js ''peer.route.update''" u] a u0
    by (simp del: js_simps)
  show ?thesis
    using c0 c1 u(1) u0 u1 unfolding c_def by blast
qed

text \<open>
  C7. A buffer whose envelope has another destination than the decoder expects is
  rejected with the \<open>TypeError\<close> that names the expected kind of request:
  \<open>peer.route.control\<close> for \<open>deserializeCcpRouteControlRequest\<close>,
  \<open>peer.route.update\<close> for \<open>deserializeCcpRouteUpdateRequest\<close>. No record is returned.
\<close>

theorem wrong_destination_rejected:
  assumes "deser buf = Inr ilp"
  shows "(destination ilp \<noteq> js ''peer.route.control'' \<longrightarrow>
            deserializeCcpRouteControlRequest deser now buf
            = Inl (TypeError (js ''packet is not a CCP route control request.'')))
         \<and> (destination ilp \<noteq> js ''peer.route.update'' \<longrightarrow>
            deserializeCcpRouteUpdateRequest deser now buf
            = Inl (TypeError (js ''packet is not a CCP route update request.'')))"
  using assms
  by (simp add: deserializeCcpRouteControlRequest_def deserializeCcpRouteUpdateRequest_def
      CCP_CONTROL_DESTINATION_def CCP_UPDATE_DESTINATION_def del: js_simps)

theorem wrong_destination_rejected_witness:
  "sample_deserializeIlpPrepare
     (sample_serializeIlpPrepare (peer_request (js ''peer.config'') 1000 []))
     = Inr (peer_request (js ''peer.config'') 1000 [])
   \<and> js ''peer.config'' \<noteq> js ''peer.route.control''
   \<and> js ''peer.config'' \<noteq> js ''peer.route.update''
   \<and> deserializeCcpRouteControlRequest sample_deserializeIlpPrepare 2000
         (sample_serializeIlpPrepare (peer_request (js ''peer.config'') 1000 []))
       = Inl (TypeError (js ''packet is not a CCP route control request.''))
   \<and> deserializeCcpRouteUpdateRequest sample_deserializeIlpPrepare 2000
         (sample_serializeIlpPrepare (peer_request (js ''peer.config'') 1000 []))
       = Inl (TypeError (js ''packet is not a CCP route update request.''))"
proof -
  let ?p = "peer_request (js ''peer.config'') 1000 []"
  have 1: "sample_deserializeIlpPrepare (sample_serializeIlpPrepare ?p) = Inr ?p"
    by (rule sample_prepare_roundtrip)
       (simp_all add: peer_request_def PEER_PROTOCOL_EXPIRY_DURATION_def length_condition
         is_ascii_def)
  have 2: "js ''peer.config'' \<noteq> js ''peer.route.control''"
    "js ''peer.config'' \<noteq> js ''peer.route.update''"
    by simp_all
  have 3: "destination ?p = js ''peer.config''" by (simp add: peer_request_def del: js_simps)
  show ?thesis
    using 1 2
      wrong_destination_rejected [of sample_deserializeIlpPrepare
        "sample_serializeIlpPrepare ?p" ?p 2000]
    unfolding 3 by blast
qed

text \<open>
  C8. A buffer whose envelope has the expected destination but an execution condition
  other than the fixed 32 octets, be it in one bit or in its length, is rejected by both
  request decoders with the \<open>Error\<close> about the condition. No record is returned.
\<close>

theorem wrong_condition_rejected:
  assumes "deser buf = Inr ilp" and "executionCondition ilp \<noteq> PEER_PROTOCOL_CONDITION"
  shows "(destination ilp = js ''peer.route.control'' \<longrightarrow>
            deserializeCcpRouteControlRequest deser now buf
            = Inl (Error (js ''packet does not contain correct condition for a peer protocol request.'')))
         \<and> (destination ilp = js ''peer.route.update'' \<longrightarrow>
            deserializeCcpRouteUpdateRequest deser now buf
            = Inl (Error (js ''packet does not contain correct condition for a peer protocol request.'')))"
  using assms
  by (auto simp add: deserializeCcpRouteControlRequest_def deserializeCcpRouteUpdateRequest_def
      CCP_CONTROL_DESTINATION_def CCP_UPDATE_DESTINATION_def simp del: js_simps)

theorem wrong_condition_rejected_witness:
  "flipped_condition \<noteq> PEER_PROTOCOL_CONDITION
   \<and> deserializeCcpRouteControlRequest sample_deserializeIlpPrepare 2000
         (sample_serializeIlpPrepare
           ((peer_request (js ''peer.route.control'') 1000 [])\<lparr>executionCondition := flipped_condition\<rparr>))
       = Inl (Error (js ''packet does not contain correct condition for a peer protocol request.''))
   \<and> deserializeCcpRouteUpdateRequest sample_deserializeIlpPrepare 2000
         (sample_serializeIlpPrepare
           ((peer_request (js ''peer.route.update'') 1000 [])\<lparr>executionCondition := flipped_condition\<rparr>))
       = Inl (Error (js ''packet does not contain correct condition for a peer protocol request.''))"
proof -
  let ?p = "(peer_request (js ''peer.route.control'') 1000 [])\<lparr>executionCondition := flipped_condition\<rparr>"
  let ?q = "(peer_request (js ''peer.route.update'') 1000 [])\<lparr>executionCondition := flipped_condition\<rparr>"
  have f: "flipped_condition \<noteq> PEER_PROTOCOL_CONDITION" "length flipped_condition = 32"
    by (simp_all add: flipped_condition_def PEER_PROTOCOL_CONDITION_def)
  have a: "is_ascii (js ''0'')" "is_ascii (js ''peer.route.control'')"
    "is_ascii (js ''peer.route.update'')"
    by (simp_all add: is_ascii_def)
  have 1: "sample_deserializeIlpPrepare (sample_serializeIlpPrepare ?p) = Inr ?p"
    using a f(2) by (intro sample_prepare_roundtrip)
       (simp_all add: peer_request_def PEER_PROTOCOL_EXPIRY_DURATION_def del: js_simps)
  have 2: "sample_deserializeIlpPrepare (sample_serializeIlpPrepare ?q) = Inr ?q"
    using a f(2) by (intro sample_prepare_roundtrip)
       (simp_all add: peer_request_def PEER_PROTOCOL_EXPIRY_DURATION_def del: js_simps)
  have 3: "executionCondition ?p \<noteq> PEER_PROTOCOL_CONDITION"
    "executionCondition ?q \<noteq> PEER_PROTOCOL_CONDITION"
    "destination ?p = js ''peer.route.control''" "destination ?q = js ''peer.route.update''"
    using f(1) by (simp_all add: peer_request_def del: js_simps)
  show ?thesis
    using f(1) 3(3,4)
      wrong_condition_rejected [of sample_deserializeIlpPrepare "sample_serializeIlpPrepare ?p"
        ?p 2000, OF 1 3(1)]
      wrong_condition_rejected [of sample_deserializeIlpPrepare "sample_serializeIlpPrepare ?q"
        ?q 2000, OF 2 3(2)]
    by blast
qed

text \<open>
  C2, as the code has it. Once the destination and the condition have been accepted, a
  request decoder raises the \<open>Error\<close> about expiry exactly when the current time is
  strictly after the expiry timestamp of the envelope; at any time up to and including
  the expiry timestamp the check passes and the payload is parsed.
\<close>

theorem expired_only_strictly_after:
  assumes "deser buf = Inr ilp" and "executionCondition ilp = PEER_PROTOCOL_CONDITION"
  shows "(destination ilp = js ''peer.route.control'' \<longrightarrow>
            deserializeCcpRouteControlRequest deser now buf
            = (if now > expiresAt ilp
               then Inl (Error (js ''CCP route control request packet is expired.''))
               else parseControlPayload (data ilp)))
         \<and> (destination ilp = js ''peer.route.update'' \<longrightarrow>
            deserializeCcpRouteUpdateRequest deser now buf
            = (if now > expiresAt ilp
               then Inl (Error (js ''CCP route update request packet is expired.''))
               else parseUpdatePayload (data ilp)))"
  using assms
  by (simp add: deserializeCcpRouteControlRequest_def deserializeCcpRouteUpdateRequest_def
      CCP_CONTROL_DESTINATION_def CCP_UPDATE_DESTINATION_def del: js_simps)

theorem expired_only_strictly_after_witness:
  "expiresAt (peer_request (js ''peer.route.control'') 1000 []) = 61000
   \<and> deserializeCcpRouteControlRequest sample_deserializeIlpPrepare 61001
         (sample_serializeIlpPrepare (peer_request (js ''peer.route.control'') 1000 []))
       = Inl (Error (js ''CCP route control request packet is expired.''))
   \<and> expiresAt (peer_request (js ''peer.route.update'') 1000 []) = 61000
   \<and> deserializeCcpRouteUpdateRequest sample_deserializeIlpPrepare 61001
         (sample_serializeIlpPrepare (peer_request (js ''peer.route.update'') 1000 []))
       = Inl (Error (js ''CCP route update request packet is expired.''))"
proof -
  let ?p = "peer_request (js ''peer.route.control'') 1000 []"
  let ?q = "peer_request (js ''peer.route.update'') 1000 []"
  have a: "is_ascii (js ''0'')" "is_ascii (js ''peer.route.control'')"
    "is_ascii (js ''peer.route.update'')"
    by (simp_all add: is_ascii_def)
  have 1: "sample_deserializeIlpPrepare (sample_serializeIlpPrepare ?p) = Inr ?p"
    using a by (intro sample_prepare_roundtrip)
       (simp_all add: peer_request_def PEER_PROTOCOL_EXPIRY_DURATION_def length_condition
         del: js_simps)
  have 2: "sample_deserializeIlpPrepare (sample_serializeIlpPrepare ?q) = Inr ?q"
    using a by (intro sample_prepare_roundtrip)
       (simp_all add: peer_request_def PEER_PROTOCOL_EXPIRY_DURATION_def length_condition
         del: js_simps)
  have 3: "executionCondition ?p = PEER_PROTOCOL_CONDITION"
    "executionCondition ?q = PEER_PROTOCOL_CONDITION"
    "destination ?p = js ''peer.route.control''" "destination ?q = js ''peer.route.update''"
    "expiresAt ?p = 61000" "expiresAt ?q = 61000"
    by (simp_all add: peer_request_def PEER_PROTOCOL_EXPIRY_DURATION_def del: js_simps)
  show ?thesis
    using 3(3-6)
      expired_only_strictly_after [of sample_deserializeIlpPrepare
        "sample_serializeIlpPrepare ?p" ?p 61001, OF 1 3(1)]
      expired_only_strictly_after [of sample_deserializeIlpPrepare
        "sample_serializeIlpPrepare ?q" ?q 61001, OF 2 3(2)]
    by simp
qed

text \<open>
  C2, as stated, fails when the current time equals the expiry timestamp: a control
  request encoded at time 0 expires at 60000, and decoding it at time 60000 returns the
  request instead of raising.
\<close>

theorem expiry_equal_counterexample:
  "(0 :: int) + PEER_PROTOCOL_EXPIRY_DURATION = 60000
   \<and> andThen (serializeCcpRouteControlRequest sample_serializeIlpPrepare 0 example_control)
        (deserializeCcpRouteControlRequest sample_deserializeIlpPrepare 60000)
       = Inr example_control"
proof -
  have e: "envelope_roundtrips sample_serializeIlpPrepare sample_deserializeIlpPrepare
             CCP_CONTROL_DESTINATION 0"
    by (rule sample_envelope_roundtrips) (simp_all add: ascii_destinations)
  have t: "(60000 :: int) \<le> 0 + PEER_PROTOCOL_EXPIRY_DURATION"
    by (simp add: PEER_PROTOCOL_EXPIRY_DURATION_def)
  from control_through_envelope [OF valid_example_control e t]
  show ?thesis by (auto simp add: PEER_PROTOCOL_EXPIRY_DURATION_def)
qed

text \<open>
  C4. Given the fulfillment envelope that the buffer unwraps to,
  \<open>deserializeCcpResponse\<close> raises the \<open>Error\<close> about the fulfillment if and only if
  the fulfillment differs from 32 zero octets, and returns normally otherwise;
  \<open>serializeCcpResponse\<close> serialises the envelope with exactly 32 zero octets as
  fulfillment and no data.
\<close>

theorem response_fulfillment_checked:
  "(\<forall>response ilp. deserializeIlpFulfill response = Inr ilp \<longrightarrow>
      (deserializeCcpResponse deserializeIlpFulfill response
         = Inl (Error (js ''CCP response does not contain the expected fulfillment.''))
       \<longleftrightarrow> fulfillment ilp \<noteq> replicate 32 0)
      \<and> (fulfillment ilp = replicate 32 0 \<longrightarrow>
           deserializeCcpResponse deserializeIlpFulfill response = Inr ()))
   \<and> serializeCcpResponse serializeIlpFulfill
       = serializeIlpFulfill \<lparr>fulfillment = replicate 32 0, fulfill_data = []\<rparr>"
  by (auto simp add: deserializeCcpResponse_def serializeCcpResponse_def
      PEER_PROTOCOL_FULFILLMENT_def simp del: js_simps)

theorem response_fulfillment_checked_witness:
  "deserializeCcpResponse sample_deserializeIlpFulfill
     (serializeCcpResponse sample_serializeIlpFulfill) = Inr ()
   \<and> deserializeCcpResponse sample_deserializeIlpFulfill
       (sample_serializeIlpFulfill \<lparr>fulfillment = replicate 31 0 @ [1], fulfill_data = []\<rparr>)
     = Inl (Error (js ''CCP response does not contain the expected fulfillment.''))"
proof -
  let ?ok = "\<lparr>fulfillment = replicate 32 0, fulfill_data = []\<rparr>"
  let ?bad = "\<lparr>fulfillment = replicate 31 0 @ [1], fulfill_data = []\<rparr>"
  have 1: "sample_deserializeIlpFulfill (sample_serializeIlpFulfill ?ok) = Inr ?ok"
    by (rule sample_fulfill_roundtrip) simp
  have 2: "sample_deserializeIlpFulfill (sample_serializeIlpFulfill ?bad) = Inr ?bad"
    by (rule sample_fulfill_roundtrip) simp
  have "last (replicate 31 (0 :: byte) @ [1]) = 1" "last (replicate 32 (0 :: byte)) = 0"
    by simp_all
  then have "replicate 31 (0 :: byte) @ [1] \<noteq> replicate 32 0"
    by (metis zero_neq_one)
  then have 3: "fulfillment ?bad \<noteq> replicate 32 0" by simp
  have 4: "fulfillment ?ok = replicate 32 0" by simp
  show ?thesis
    using response_fulfillment_checked [of sample_deserializeIlpFulfill sample_serializeIlpFulfill]
      1 2 3 4
    by metis
qed

text \<open>
  C6. The metadata octet that the encoder writes for a route property, whatever the four
  booleans of the property are, has bit 0x40 (transitive) only when bit 0x80 (well known)
  is clear, bit 0x20 (partial) only when bit 0x40 is set and bit 0x80 is clear, and the
  four low bits clear. Writing the octet never fails, and it is the first octet of
  whatever \<open>writeProp\<close> appends for the property.
\<close>

theorem meta_octet_flags:
  "\<exists>m. writeUInt8 (propMeta p) w = Inr (w @ [m])
       \<and> (m AND 0x40 \<noteq> 0 \<longrightarrow> m AND 0x80 = 0)
       \<and> (m AND 0x20 \<noteq> 0 \<longrightarrow> m AND 0x40 \<noteq> 0 \<and> m AND 0x80 = 0)
       \<and> m AND 0x0F = 0
       \<and> (\<forall>w'. writeProp p w = Inr w' \<longrightarrow> (\<exists>rest. w' = w @ m # rest))"
proof -
  define m :: byte where "m = of_nat (propMeta p)"
  have "writeUInt8 (propMeta p) w = Inr (w @ [m])"
    using propMeta_less [of p]
    by (simp add: writeUInt8_def writeUInt_def octets_of_uint_1 m_def)
  moreover have "m \<in> {0x00, 0x10, 0x40, 0x50, 0x60, 0x70, 0x80, 0x90}"
    using propMeta_cases [of p] unfolding m_def by auto
  then have "(m AND 0x40 \<noteq> 0 \<longrightarrow> m AND 0x80 = 0)
       \<and> (m AND 0x20 \<noteq> 0 \<longrightarrow> m AND 0x40 \<noteq> 0 \<and> m AND 0x80 = 0)
       \<and> m AND 0x0F = 0"
    by auto
  moreover have "\<forall>w'. writeProp p w = Inr w' \<longrightarrow> (\<exists>rest. w' = w @ m # rest)"
    using writeProp_starts_with_meta unfolding m_def by blast
  ultimately show ?thesis by blast
qed

theorem meta_octet_flags_witness:
  "writeUInt8 (propMeta inconsistent_prop) [] = Inr [0x80]
   \<and> writeProp inconsistent_prop [] = Inr [0x80, 0, 0, 0]
   \<and> (0x80 :: byte) AND 0x40 = 0 \<and> (0x80 :: byte) AND 0x20 = 0 \<and> (0x80 :: byte) AND 0x0F = 0"
proof -
  have m: "writeUInt8 (propMeta inconsistent_prop) [] = Inr [0x80]"
    by (simp add: inconsistent_prop_def propMeta_def isUtf8_def Let_def
        writeUInt8_def writeUInt_def octets_of_uint_1)
  have w: "writeProp inconsistent_prop [] = Inr [0x80, 0, 0, 0]"
    by (simp add: writeProp_def inconsistent_prop_def propMeta_def isUtf8_def Let_def
        writeUInt8_def writeUInt16_def writeUInt_def writeVarOctetString_def
        writeLengthPrefix_def writeOctets_def octets_of_uint_1 numeral_2_eq_2)
  from meta_octet_flags [of inconsistent_prop "[]"]
  obtain x where x: "writeUInt8 (propMeta inconsistent_prop) [] = Inr ([] @ [x])"
    "x AND 0x40 \<noteq> 0 \<longrightarrow> x AND 0x80 = 0"
    "x AND 0x20 \<noteq> 0 \<longrightarrow> x AND 0x40 \<noteq> 0 \<and> x AND 0x80 = 0"
    "x AND 0x0F = 0"
    by blast
  have "x = 0x80" using x(1) m by simp
  then show ?thesis using m w x(2-4) by auto
qed




end
